theory Spec2Isabelle
  imports Complex_Main "HOL-Library.Sublist"
begin

section \<open>JavaScript strings\<close>

text \<open>
  The sentence pipeline of \<^verbatim>\<open>src/app/api/random-sentences/route.ts\<close> works on JavaScript
  strings, which are sequences of UTF-16 code units. A code unit is modelled by its number and
  a string by the list of its code units, so that \<open>length\<close> is the \<^verbatim>\<open>.length\<close> of the source.
  The file holds three revisions of the route, told apart below by a suffix:
  \<^item> \<open>_ocr\<close>: lines 1-299 (special characters stripped, letter-ratio check, whole-text language check);
  \<^item> \<open>_markup\<close>: lines 300-668 (the same plus the CSS/HTML patterns, sampled language check);
  \<^item> \<open>_early\<close>: lines 669-835 (no cleaning, no letter-ratio check, no language check).
\<close>

type_synonym jschar = nat
type_synonym jsstring = "jschar list"

definition str :: "string \<Rightarrow> jsstring" where
  \<comment> \<open>An ASCII literal of the source as a list of code units.\<close>
  "str s = map of_char s"

definition isDigit :: "jschar \<Rightarrow> bool" where
  \<comment> \<open>\<^verbatim>\<open>\d\<close>, \<^verbatim>\<open>[0-9]\<close>\<close>
  "isDigit c = (48 \<le> c \<and> c \<le> 57)"

definition isUpper :: "jschar \<Rightarrow> bool" where
  \<comment> \<open>\<^verbatim>\<open>[A-Z]\<close>\<close>
  "isUpper c = (65 \<le> c \<and> c \<le> 90)"

definition isLower :: "jschar \<Rightarrow> bool" where
  \<comment> \<open>\<^verbatim>\<open>[a-z]\<close>\<close>
  "isLower c = (97 \<le> c \<and> c \<le> 122)"

definition isLetter :: "jschar \<Rightarrow> bool" where
  \<comment> \<open>\<^verbatim>\<open>[a-zA-Z]\<close>\<close>
  "isLetter c = (isLower c \<or> isUpper c)"

definition isWord :: "jschar \<Rightarrow> bool" where
  \<comment> \<open>\<^verbatim>\<open>\w\<close> without the unicode flag: \<^verbatim>\<open>[A-Za-z0-9_]\<close>\<close>
  "isWord c = (isLetter c \<or> isDigit c \<or> c = 95)"

definition isSpace :: "jschar \<Rightarrow> bool" where
  \<comment> \<open>\<^verbatim>\<open>\s\<close>: ECMAScript WhiteSpace and LineTerminator (tab, LF, VT, FF, CR, space, U+00A0,
      U+1680, U+2000 to U+200A, U+2028, U+2029, U+202F, U+205F, U+3000, U+FEFF). \<^verbatim>\<open>trim\<close> strips
      the same set.\<close>
  "isSpace c = (c = 9 \<or> c = 10 \<or> c = 11 \<or> c = 12 \<or> c = 13 \<or> c = 32 \<or> c = 160 \<or> c = 5760
      \<or> (8192 \<le> c \<and> c \<le> 8202) \<or> c = 8232 \<or> c = 8233 \<or> c = 8239 \<or> c = 8287
      \<or> c = 12288 \<or> c = 65279)"

definition isTerminal :: "jschar \<Rightarrow> bool" where
  \<comment> \<open>\<^verbatim>\<open>[.!?]\<close>\<close>
  "isTerminal c = (c = 46 \<or> c = 33 \<or> c = 63)"

definition asciiLower :: "jschar \<Rightarrow> jschar" where
  "asciiLower c = (if isUpper c then c + 32 else c)"

definition isAscii :: "jsstring \<Rightarrow> bool" where
  "isAscii s = list_all (\<lambda>c. c < 128) s"

definition toLowerCase :: "(jsstring \<Rightarrow> jsstring) \<Rightarrow> jsstring \<Rightarrow> jsstring" where
  \<comment> \<open>\<^verbatim>\<open>String.prototype.toLowerCase\<close>. On a string of ASCII code units it maps A-Z to a-z and
      leaves the rest. The Unicode case tables are not part of the repository: what the engine
      returns for a string with a code unit beyond ASCII is the parameter \<open>L\<close>.\<close>
  "toLowerCase L s = (if isAscii s then map asciiLower s else L s)"

definition trim :: "jsstring \<Rightarrow> jsstring" where
  \<comment> \<open>\<^verbatim>\<open>String.prototype.trim\<close>\<close>
  "trim s = rev (dropWhile isSpace (rev (dropWhile isSpace s)))"

fun includes_js :: "jsstring \<Rightarrow> jsstring \<Rightarrow> bool" where
  \<comment> \<open>\<^verbatim>\<open>s.includes(k)\<close>: \<open>k\<close> occurs in \<open>s\<close> as a contiguous substring.\<close>
  "includes_js [] k = (k = [])"
| "includes_js (c # cs) k = (prefix k (c # cs) \<or> includes_js cs k)"

definition slice :: "jsstring \<Rightarrow> nat \<Rightarrow> nat \<Rightarrow> jsstring" where
  \<comment> \<open>\<^verbatim>\<open>s.slice(a, b)\<close> for non-negative indices.\<close>
  "slice s a b = take (b - a) (drop a s)"

function replaceRuns :: "(jschar \<Rightarrow> bool) \<Rightarrow> jsstring \<Rightarrow> jsstring" where
  \<comment> \<open>\<^verbatim>\<open>s.replace(/X+/g, " ")\<close> for a character class \<open>X\<close>: every maximal run of characters of
      the class becomes one space.\<close>
  "replaceRuns p [] = []"
| "replaceRuns p (c # cs) =
     (if p c then 32 # replaceRuns p (dropWhile p cs) else c # replaceRuns p cs)"
  by pat_completeness auto
termination
  by (relation "measure (\<lambda>(p, s). length s)") (auto simp: length_dropWhile_le less_Suc_eq_le)

fun splitOn :: "jschar \<Rightarrow> jsstring \<Rightarrow> jsstring list" where
  \<comment> \<open>\<^verbatim>\<open>s.split(sep)\<close> for a separator of one character; the empty string gives one empty
      piece.\<close>
  "splitOn sep [] = [[]]"
| "splitOn sep (c # cs) =
     (if c = sep then [] # splitOn sep cs
      else (case splitOn sep cs of [] \<Rightarrow> [[c]] | l # ls \<Rightarrow> (c # l) # ls))"

definition splitLines :: "jsstring \<Rightarrow> jsstring list" where
  \<comment> \<open>\<^verbatim>\<open>text.split("\n")\<close>\<close>
  "splitLines text = splitOn 10 text"

fun joinWith :: "jschar \<Rightarrow> jsstring list \<Rightarrow> jsstring" where
  \<comment> \<open>\<^verbatim>\<open>xs.join(sep)\<close> for a separator of one character.\<close>
  "joinWith sep [] = []"
| "joinWith sep [x] = x"
| "joinWith sep (x # y # ys) = x @ sep # joinWith sep (y # ys)"

section \<open>Regular expressions\<close>

text \<open>
  The patterns of the source that are only tested (\<^verbatim>\<open>re.test(s)\<close>, or \<^verbatim>\<open>s.match(re)\<close> read as a
  truth value) are values of a small datatype. \<open>rxm r s\<close> lists what is left of \<open>s\<close> after every
  way in which \<open>r\<close> matches a prefix of \<open>s\<close>; a test asks whether some such way exists, which
  is what a backtracking matcher finds out.
\<close>

datatype rx =
    Nul
  | Eps
  | Eof
  | Cls "jschar \<Rightarrow> bool"
  | Alt rx rx
  | Seq rx rx
  | Star rx

fun rxm :: "rx \<Rightarrow> jsstring \<Rightarrow> jsstring list" where
  "rxm Nul s = []"
| "rxm Eps s = [s]"
| "rxm Eof s = (if s = [] then [s] else [])"
| "rxm (Cls p) s = (case s of [] \<Rightarrow> [] | c # cs \<Rightarrow> if p c then [cs] else [])"
| "rxm (Alt a b) s = rxm a s @ rxm b s"
| "rxm (Seq a b) s = concat (map (rxm b) (rxm a s))"
| "rxm (Star a) s =
     s # concat (map (rxm (Star a)) (filter (\<lambda>t. length t < length s) (rxm a s)))"

definition rxTestStart :: "rx \<Rightarrow> jsstring \<Rightarrow> bool" where
  \<comment> \<open>a pattern that starts with \<^verbatim>\<open>^\<close>\<close>
  "rxTestStart r s = (rxm r s \<noteq> [])"

fun rxTest :: "rx \<Rightarrow> jsstring \<Rightarrow> bool" where
  \<comment> \<open>a pattern without \<^verbatim>\<open>^\<close>: a match may start anywhere\<close>
  "rxTest r [] = rxTestStart r []"
| "rxTest r (c # cs) = (rxTestStart r (c # cs) \<or> rxTest r cs)"

definition chr :: "char \<Rightarrow> rx" where
  "chr c = Cls (\<lambda>x. x = of_char c)"

definition chr_i :: "char \<Rightarrow> rx" where
  \<comment> \<open>a literal character under the \<^verbatim>\<open>i\<close> flag (no \<^verbatim>\<open>u\<close> flag: a code unit beyond ASCII
      never equals an ASCII letter)\<close>
  "chr_i c = Cls (\<lambda>x. asciiLower x = asciiLower (of_char c))"

fun lit :: "string \<Rightarrow> rx" where
  "lit [] = Eps"
| "lit (c # cs) = Seq (chr c) (lit cs)"

fun lit_i :: "string \<Rightarrow> rx" where
  "lit_i [] = Eps"
| "lit_i (c # cs) = Seq (chr_i c) (lit_i cs)"

fun alts :: "rx list \<Rightarrow> rx" where
  "alts [] = Nul"
| "alts (r # rs) = Alt r (alts rs)"

fun seqs :: "rx list \<Rightarrow> rx" where
  "seqs [] = Eps"
| "seqs (r # rs) = Seq r (seqs rs)"

definition many1 :: "rx \<Rightarrow> rx" where
  \<comment> \<open>\<^verbatim>\<open>r+\<close>\<close>
  "many1 r = Seq r (Star r)"

definition opt :: "rx \<Rightarrow> rx" where
  \<comment> \<open>\<^verbatim>\<open>r?\<close>\<close>
  "opt r = Alt r Eps"

definition anyChar :: rx where
  \<comment> \<open>\<^verbatim>\<open>[\s\S]\<close>\<close>
  "anyChar = Cls (\<lambda>c. True)"

definition dot :: rx where
  \<comment> \<open>\<^verbatim>\<open>.\<close>: anything but a line terminator\<close>
  "dot = Cls (\<lambda>c. c \<noteq> 10 \<and> c \<noteq> 13 \<and> c \<noteq> 8232 \<and> c \<noteq> 8233)"

definition ws :: rx where
  "ws = Cls isSpace"

definition digit :: rx where
  "digit = Cls isDigit"

definition wordDash :: rx where
  \<comment> \<open>\<^verbatim>\<open>[a-zA-Z0-9_\-]\<close>, \<^verbatim>\<open>[\w\-]\<close>\<close>
  "wordDash = Cls (\<lambda>c. isWord c \<or> c = 45)"

definition hexDigit :: rx where
  \<comment> \<open>\<^verbatim>\<open>[0-9a-fA-F]\<close>\<close>
  "hexDigit = Cls (\<lambda>c. isDigit c \<or> (97 \<le> c \<and> c \<le> 102) \<or> (65 \<le> c \<and> c \<le> 70))"

definition hex3to6 :: rx where
  \<comment> \<open>\<^verbatim>\<open>[0-9a-fA-F]{3,6}\<close>\<close>
  "hex3to6 = seqs [hexDigit, hexDigit, hexDigit, opt (seqs [hexDigit, opt (seqs [hexDigit, opt hexDigit])])]"

definition letters3 :: rx where
  \<comment> \<open>\<^verbatim>\<open>[a-zA-Z]{3,}\<close>\<close>
  "letters3 = seqs [Cls isLetter, Cls isLetter, Cls isLetter, Star (Cls isLetter)]"

section \<open>Content filter\<close>

definition skipPatterns :: "rx list" where
  \<comment> \<open>The local constant \<^verbatim>\<open>skipPatterns\<close> of \<^verbatim>\<open>filterMainContent\<close> (all with the \<^verbatim>\<open>i\<close> flag).\<close>
  "skipPatterns =
    [lit_i ''GNU GENERAL PUBLIC LICENSE'',
     lit_i ''Project Gutenberg'',
     seqs [lit_i ''END OF'', Star dot, lit_i ''LICENSE''],
     seqs [lit_i ''START OF'', Star dot, lit_i ''PROJECT''],
     lit_i ''Table of Contents'',
     lit_i ''TERMS AND CONDITIONS'',
     lit_i ''Copyright'',
     lit_i ''All rights reserved'',
     lit_i ''Permission is granted'',
     lit_i ''This eBook is for the use'']"

definition skipCount :: "nat \<Rightarrow> nat" where
  \<comment> \<open>\<^verbatim>\<open>Math.floor(lines.length * 0.15)\<close>\<close>
  "skipCount n = nat \<lfloor>real n * 0.15\<rfloor>"

definition contentLines_with :: "rx list \<Rightarrow> jsstring \<Rightarrow> jsstring list" where
  \<comment> \<open>The value of \<^verbatim>\<open>contentLines\<close> in \<^verbatim>\<open>filterMainContent\<close> (lines 83-107 and 733-757); the
      first argument is the local constant \<^verbatim>\<open>skipPatterns\<close>.\<close>
  "contentLines_with skipPats text =
     (let lines = splitLines text;
          skipLines = skipCount (length lines)
      in drop skipLines lines)"

definition filterMainContent_with :: "rx list \<Rightarrow> jsstring \<Rightarrow> jsstring" where
  "filterMainContent_with skipPats text = joinWith 10 (contentLines_with skipPats text)"

definition filterMainContent :: "jsstring \<Rightarrow> jsstring" where
  "filterMainContent text = filterMainContent_with skipPatterns text"

subsection \<open>The markup-aware revision\<close>

definition re_cssSelector :: rx where
  \<comment> \<open>\<^verbatim>\<open>/^(\.|\#)[a-zA-Z0-9_\-]+(\s+\{|\s+[a-zA-Z0-9_\-]+\s*\{|$)/\<close>\<close>
  "re_cssSelector =
     seqs [Alt (chr CHR ''.'') (chr CHR ''#''), many1 wordDash,
           alts [seqs [many1 ws, chr CHR ''{''],
                 seqs [many1 ws, many1 wordDash, Star ws, chr CHR ''{''],
                 Eof]]"

definition re_cssClass :: rx where
  \<comment> \<open>\<^verbatim>\<open>/^\.([\w\-]+\s*)+(\{|\:|$)/\<close>\<close>
  "re_cssClass =
     seqs [chr CHR ''.'', many1 (seqs [many1 wordDash, Star ws]),
           alts [chr CHR ''{'', chr CHR '':'', Eof]]"

definition re_cssProperty :: rx where
  \<comment> \<open>\<^verbatim>\<open>/^(display|margin|padding|border|background|color|font|width|height|position|flex|grid)/i\<close>\<close>
  "re_cssProperty =
     alts (map lit_i [''display'', ''margin'', ''padding'', ''border'', ''background'', ''color'',
                      ''font'', ''width'', ''height'', ''position'', ''flex'', ''grid''])"

definition re_htmlCssMixed :: rx where
  \<comment> \<open>\<^verbatim>\<open>/^(button|label|div|span|style|class|id)\s*(\.|\#|\{|\:)/i\<close>\<close>
  "re_htmlCssMixed =
     seqs [alts (map lit_i [''button'', ''label'', ''div'', ''span'', ''style'', ''class'', ''id'']),
           Star ws,
           alts [chr CHR ''.'', chr CHR ''#'', chr CHR ''{'', chr CHR '':'']]"

definition re_tagAtStart :: rx where
  \<comment> \<open>first alternative of \<^verbatim>\<open>/^<[^>]+>|<\/[^>]+>$/\<close>\<close>
  "re_tagAtStart = seqs [chr CHR ''<'', many1 (Cls (\<lambda>c. c \<noteq> 62)), chr CHR ''>'']"

definition re_closingTagAtEnd :: rx where
  \<comment> \<open>second alternative of \<^verbatim>\<open>/^<[^>]+>|<\/[^>]+>$/\<close>\<close>
  "re_closingTagAtEnd =
     seqs [chr CHR ''<'', chr CHR ''/'', many1 (Cls (\<lambda>c. c \<noteq> 62)), chr CHR ''>'', Eof]"

definition re_braceBlock :: rx where
  \<comment> \<open>\<^verbatim>\<open>/^\{[\s\S]*\}$/\<close>\<close>
  "re_braceBlock = seqs [chr CHR ''{'', Star anyChar, chr CHR ''}'', Eof]"

definition re_webComponent :: rx where
  \<comment> \<open>\<^verbatim>\<open>/^(Shady DOM|Shadow DOM|Web Component)/i\<close>\<close>
  "re_webComponent = alts (map lit_i [''Shady DOM'', ''Shadow DOM'', ''Web Component''])"

definition re_styleReference :: rx where
  \<comment> \<open>\<^verbatim>\<open>/^(style|styles)\s+(for|in|of)\s+/i\<close>\<close>
  "re_styleReference =
     seqs [alts (map lit_i [''style'', ''styles'']), many1 ws,
           alts (map lit_i [''for'', ''in'', ''of'']), many1 ws]"

definition re_jsCode :: rx where
  \<comment> \<open>\<^verbatim>\<open>/^(true|false|null|undefined|var|let|const|function)\s*[\{\(\=\;]/\<close>\<close>
  "re_jsCode =
     seqs [alts (map lit [''true'', ''false'', ''null'', ''undefined'', ''var'', ''let'', ''const'',
                          ''function'']),
           Star ws,
           Cls (\<lambda>c. c = 123 \<or> c = 40 \<or> c = 61 \<or> c = 59)]"

definition re_cssValue :: rx where
  \<comment> \<open>\<^verbatim>\<open>/\:\s*\d+px|\:\s*#[0-9a-fA-F]{3,6}|\:\s*rgba?\(/\<close>\<close>
  "re_cssValue =
     alts [seqs [chr CHR '':'', Star ws, many1 digit, lit ''px''],
           seqs [chr CHR '':'', Star ws, chr CHR ''#'', hex3to6],
           seqs [chr CHR '':'', Star ws, lit ''rgb'', opt (chr CHR ''a''), chr CHR ''('']]"

definition re_onlyBrackets :: rx where
  \<comment> \<open>\<^verbatim>\<open>/^[\{\}\[\]\(\)\;]+$/\<close>\<close>
  "re_onlyBrackets =
     seqs [many1 (Cls (\<lambda>c. c = 123 \<or> c = 125 \<or> c = 91 \<or> c = 93 \<or> c = 40 \<or> c = 41 \<or> c = 59)),
           Eof]"

definition re_numberBrace :: rx where
  \<comment> \<open>\<^verbatim>\<open>/^\d+\s*\{/\<close>\<close>
  "re_numberBrace = seqs [many1 digit, Star ws, chr CHR ''{'']"

definition keepLine :: "jsstring \<Rightarrow> bool" where
  \<comment> \<open>The callback of \<^verbatim>\<open>.filter\<close> at lines 418-437.\<close>
  "keepLine line =
     (let trimmed = trim line in
      if rxTestStart re_cssSelector trimmed then False
      else if rxTestStart re_cssClass trimmed then False
      else if rxTestStart re_cssProperty trimmed then False
      else if rxTestStart re_htmlCssMixed trimmed then False
      else if rxTestStart re_tagAtStart trimmed \<or> rxTest re_closingTagAtEnd trimmed then False
      else if rxTestStart re_braceBlock trimmed then False
      else if rxTestStart re_webComponent trimmed then False
      else if rxTestStart re_styleReference trimmed then False
      else if includes_js trimmed (str ''webkit'') \<or> includes_js trimmed (str ''mozilla'')
              \<or> includes_js trimmed (str ''moz-'') then False
      else if rxTestStart re_jsCode trimmed then False
      else if rxTest re_cssValue trimmed then False
      else if rxTestStart re_onlyBrackets trimmed then False
      else if rxTestStart re_numberBrace trimmed then False
      else True)"

definition contentLines_markup_with :: "rx list \<Rightarrow> jsstring \<Rightarrow> jsstring list" where
  \<comment> \<open>The value of \<^verbatim>\<open>contentLines\<close> in \<^verbatim>\<open>filterMainContent\<close> (lines 401-445).\<close>
  "contentLines_markup_with skipPats text =
     (let lines = filter keepLine (splitLines text);
          skipLines = skipCount (length lines)
      in drop skipLines lines)"

definition filterMainContent_markup_with :: "rx list \<Rightarrow> jsstring \<Rightarrow> jsstring" where
  "filterMainContent_markup_with skipPats text =
     joinWith 10 (contentLines_markup_with skipPats text)"

definition filterMainContent_markup :: "jsstring \<Rightarrow> jsstring" where
  "filterMainContent_markup text = filterMainContent_markup_with skipPatterns text"

section \<open>Sentence extractor\<close>

definition startsUpper :: "jsstring \<Rightarrow> bool" where
  "startsUpper s = (case s of [] \<Rightarrow> False | c # cs \<Rightarrow> isUpper c)"

function splitFrom :: "bool \<Rightarrow> jsstring \<Rightarrow> jsstring list" where
  \<comment> \<open>\<^verbatim>\<open>s.split(/(?<=[.!?])\s+(?=[A-Z])/)\<close>, read from left to right. The flag says whether
      the character before the current position is one of \<^verbatim>\<open>. ! ?\<close>. A separator is a
      whitespace run that follows such a character and is followed by \<^verbatim>\<open>A-Z\<close>; only the
      whole run can match, since a shorter one is followed by whitespace. The result is the
      piece that is being read, then the pieces after it.\<close>
  "splitFrom pt [] = [[]]"
| "splitFrom pt (c # cs) =
     (if pt \<and> isSpace c \<and> startsUpper (dropWhile isSpace cs)
      then [] # splitFrom False (dropWhile isSpace cs)
      else (case splitFrom (isTerminal c) cs of
              [] \<Rightarrow> [[c]]
            | seg # rest \<Rightarrow> (c # seg) # rest))"
  by pat_completeness auto
termination
  by (relation "measure (\<lambda>(pt, s). length s)") (auto simp: length_dropWhile_le less_Suc_eq_le)

definition splitSentences :: "jsstring \<Rightarrow> jsstring list" where
  "splitSentences s = splitFrom False s"

definition hasLetters :: "jsstring \<Rightarrow> bool" where
  \<comment> \<open>\<^verbatim>\<open>/[a-zA-Z]{3,}/.test(s)\<close>\<close>
  "hasLetters s = rxTest letters3 s"

definition letterCount :: "jsstring \<Rightarrow> nat" where
  \<comment> \<open>\<^verbatim>\<open>(s.match(/[a-zA-Z]/g) || []).length\<close>\<close>
  "letterCount s = length (filter isLetter s)"

definition hasExcludedKeyword :: "(jsstring \<Rightarrow> jsstring) \<Rightarrow> jsstring list \<Rightarrow> jsstring \<Rightarrow> bool" where
  \<comment> \<open>\<^verbatim>\<open>excludeKeywords.some((keyword) => lowerSentence.includes(keyword.toLowerCase()))\<close>\<close>
  "hasExcludedKeyword L excludeKeywords lowerSentence =
     list_ex (\<lambda>keyword. includes_js lowerSentence (toLowerCase L keyword)) excludeKeywords"

subsection \<open>The early revision (lines 683-725)\<close>

definition excludeKeywords_early :: "jsstring list" where
  "excludeKeywords_early =
     map str [''GNU'', ''GPL'', ''license'', ''copyright'', ''gutenberg'', ''warranty'',
              ''redistribution'', ''permission'', ''terms and conditions'',
              ''free software foundation'', ''all rights reserved'']"

definition accept_early :: "(jsstring \<Rightarrow> jsstring) \<Rightarrow> jsstring \<Rightarrow> bool" where
  "accept_early L s =
     (if length s < 20 \<or> length s > 500 then False
      else let lowerSentence = toLowerCase L s in
        if hasExcludedKeyword L excludeKeywords_early lowerSentence then False
        else hasLetters s)"

definition extractSentences_early :: "(jsstring \<Rightarrow> jsstring) \<Rightarrow> jsstring \<Rightarrow> jsstring list" where
  "extractSentences_early L text =
     (let mainContent = filterMainContent text;
          sentences = filter (accept_early L)
            (map trim (splitSentences
              (replaceRuns isSpace (replaceRuns (\<lambda>c. c = 10) mainContent))))
      in sentences)"

subsection \<open>The OCR-cleaning revision (lines 17-75)\<close>

definition excludeKeywords_ocr :: "jsstring list" where
  "excludeKeywords_ocr =
     map str [''GNU'', ''GPL'', ''license'', ''copyright'', ''gutenberg'', ''warranty'',
              ''redistribution'', ''permission'', ''terms and conditions'',
              ''free software foundation'', ''all rights reserved'', ''page'', ''chapter'',
              ''table of contents'', ''index'']"

definition cleanText :: "jsstring \<Rightarrow> jsstring" where
  \<comment> \<open>\<^verbatim>\<open>cleanedText\<close>: newline runs and whitespace runs to one space, every character outside
      \<^verbatim>\<open>[\w\s.!?]\<close> to a space, whitespace runs to one space again, then \<^verbatim>\<open>trim\<close>.\<close>
  "cleanText mainContent =
     trim (replaceRuns isSpace
       (map (\<lambda>c. if isWord c \<or> isSpace c \<or> isTerminal c then c else 32)
         (replaceRuns isSpace (replaceRuns (\<lambda>c. c = 10) mainContent))))"

definition letterRatioOk :: "jsstring \<Rightarrow> bool" where
  \<comment> \<open>\<^verbatim>\<open>letterRatio > 0.3\<close> with \<^verbatim>\<open>letterRatio = letterCount / totalCount\<close>\<close>
  "letterRatioOk s =
     (let letterCount = letterCount s;
          totalCount = length s;
          letterRatio = real letterCount / real totalCount
      in letterRatio > 0.3)"

definition accept_ocr :: "(jsstring \<Rightarrow> jsstring) \<Rightarrow> jsstring \<Rightarrow> bool" where
  "accept_ocr L s =
     (if length s < 15 \<or> length s > 600 then False
      else let lowerSentence = toLowerCase L s in
        if hasExcludedKeyword L excludeKeywords_ocr lowerSentence then False
        else hasLetters s \<and> letterRatioOk s)"

definition extractSentences_ocr :: "(jsstring \<Rightarrow> jsstring) \<Rightarrow> jsstring \<Rightarrow> jsstring list" where
  "extractSentences_ocr L text =
     (let mainContent = filterMainContent text;
          cleanedText = cleanText mainContent;
          sentences = filter (accept_ocr L) (map trim (splitSentences cleanedText))
      in sentences)"

subsection \<open>The markup-aware revision (lines 316-393)\<close>

definition excludeKeywords_markup :: "jsstring list" where
  "excludeKeywords_markup =
     map str [''GNU'', ''GPL'', ''license'', ''copyright'', ''gutenberg'', ''warranty'',
              ''redistribution'', ''permission'', ''terms and conditions'',
              ''free software foundation'', ''all rights reserved'', ''page'', ''chapter'',
              ''table of contents'', ''index'', ''css'', ''html'', ''style'', ''display'',
              ''margin'', ''padding'', ''border'', ''webkit'', ''mozilla'', ''shadow dom'',
              ''shady dom'', ''web component'']"

definition re_selectorChain :: rx where
  \<comment> \<open>\<^verbatim>\<open>/\.(media|button|label|web|menu|nav|header|footer|container|wrapper)\s+(button|label|display|none|flex|grid|style)/i\<close>\<close>
  "re_selectorChain =
     seqs [chr CHR ''.'',
           alts (map lit_i [''media'', ''button'', ''label'', ''web'', ''menu'', ''nav'', ''header'',
                            ''footer'', ''container'', ''wrapper'']),
           many1 ws,
           alts (map lit_i [''button'', ''label'', ''display'', ''none'', ''flex'', ''grid'',
                            ''style''])]"

definition re_cssToken :: rx where
  \<comment> \<open>\<^verbatim>\<open>/\d+px|\d+em|\d+rem|rgba?\(|#[0-9a-fA-F]{3,6}/\<close>\<close>
  "re_cssToken =
     alts [seqs [many1 digit, lit ''px''],
           seqs [many1 digit, lit ''em''],
           seqs [many1 digit, lit ''rem''],
           seqs [lit ''rgb'', opt (chr CHR ''a''), chr CHR ''(''],
           seqs [chr CHR ''#'', hex3to6]]"

definition re_braces :: rx where
  \<comment> \<open>\<^verbatim>\<open>/\{[\s\S]*\}/\<close>\<close>
  "re_braces = seqs [chr CHR ''{'', Star anyChar, chr CHR ''}'']"

definition re_displayValue :: rx where
  \<comment> \<open>\<^verbatim>\<open>/display\s+(none|block|flex|grid|inline)/i\<close>\<close>
  "re_displayValue =
     seqs [lit_i ''display'', many1 ws,
           alts (map lit_i [''none'', ''block'', ''flex'', ''grid'', ''inline''])]"

definition accept_markup :: "(jsstring \<Rightarrow> jsstring) \<Rightarrow> jsstring \<Rightarrow> bool" where
  "accept_markup L s =
     (if length s < 15 \<or> length s > 600 then False
      else let lowerSentence = toLowerCase L s in
        if hasExcludedKeyword L excludeKeywords_markup lowerSentence then False
        else if rxTest re_selectorChain s then False
        else if rxTest re_cssToken s then False
        else if rxTest re_braces s then False
        else if rxTest re_displayValue s then False
        else if includes_js s (str ''.'') \<and> length (splitOn 46 s) > 5 then False
        else hasLetters s \<and> letterRatioOk s)"

definition extractSentences_markup :: "(jsstring \<Rightarrow> jsstring) \<Rightarrow> jsstring \<Rightarrow> jsstring list" where
  "extractSentences_markup L text =
     (let mainContent = filterMainContent_markup text;
          cleanedText = cleanText mainContent;
          sentences = filter (accept_markup L) (map trim (splitSentences cleanedText))
      in sentences)"

section \<open>Language check\<close>

text \<open>
  The route has no function for the language check: it is a block of the loop in \<^verbatim>\<open>GET\<close>
  that ends in \<^verbatim>\<open>continue\<close> when the book is skipped. The two functions below are that
  block, \<open>False\<close> standing for the \<^verbatim>\<open>continue\<close>.
\<close>

definition stripForCheck :: "jsstring \<Rightarrow> jsstring" where
  \<comment> \<open>\<^verbatim>\<open>.replace(/\d+/g, '').replace(/[^\w\s]/g, ' ').replace(/\s+/g, ' ').trim()\<close>\<close>
  "stripForCheck t =
     trim (replaceRuns isSpace
       (map (\<lambda>c. if isWord c \<or> isSpace c then c else 32) (filter (\<lambda>c. \<not> isDigit c) t)))"

definition isLikelyEnglish_lenient :: "jsstring \<Rightarrow> bool" where
  \<comment> \<open>lines 216-240\<close>
  "isLikelyEnglish_lenient fullText =
     (let cleanedText = stripForCheck fullText;
          englishCharCount = length (filter isLetter cleanedText);
          totalCharCount = length cleanedText
      in if totalCharCount > 100
         then (let englishRatio = real englishCharCount / real totalCharCount
               in if englishRatio < 0.3 then False else True)
         else True)"

definition commonEnglishWords :: "jsstring list" where
  "commonEnglishWords =
     map str [''the'', ''and'', ''is'', ''in'', ''to'', ''of'', ''a'', ''that'', ''it'', ''was'',
              ''for'', ''on'', ''with'', ''as'', ''be'']"

definition isLikelyEnglish_strict :: "(jsstring \<Rightarrow> jsstring) \<Rightarrow> jsstring \<Rightarrow> bool" where
  \<comment> \<open>lines 565-609\<close>
  "isLikelyEnglish_strict L fullText =
     (let sampleStart = nat \<lfloor>real (length fullText) * 0.2\<rfloor>;
          sampleEnd = nat \<lfloor>real (length fullText) * 0.3\<rfloor>;
          sampleText = slice fullText sampleStart sampleEnd;
          cleanedText = stripForCheck sampleText;
          englishCharCount = length (filter isLetter cleanedText);
          totalCharCount = length cleanedText
      in if totalCharCount > 100
         then (let englishRatio = real englishCharCount / real totalCharCount
               in if englishRatio < 0.6 then False
                  else let lowerSample = toLowerCase L cleanedText;
                           englishWordCount = length (filter
                             (\<lambda>word. includes_js lowerSample (32 # word @ [32])) commonEnglishWords)
                       in if englishWordCount < 5 then False else True)
         else True)"

section \<open>Predicates used in the statements\<close>

text \<open>
  \<open>singleSpaced\<close>: the only whitespace is the space character and no two spaces are adjacent.
  \<open>isNormalized\<close>: collapsing whitespace runs and trimming changes nothing.
  \<open>endOK pt x\<close>: the character at the end of \<open>x\<close> (the one before \<open>x\<close>, described by
  \<open>pt\<close>, when \<open>x\<close> is empty) is one of \<^verbatim>\<open>. ! ?\<close>.
\<close>

definition singleSpaced :: "jsstring \<Rightarrow> bool" where
  "singleSpaced s = ((\<forall>c \<in> set s. isSpace c \<longrightarrow> c = 32) \<and> \<not> sublist [32, 32] s)"

definition isNormalized :: "jsstring \<Rightarrow> bool" where
  "isNormalized t = (trim (replaceRuns isSpace t) = t)"

definition endOK :: "bool \<Rightarrow> jsstring \<Rightarrow> bool" where
  "endOK pt x = (if x = [] then pt else isTerminal (last x))"

definition cleanedSample :: "jsstring \<Rightarrow> jsstring" where
  \<comment> \<open>\<^verbatim>\<open>cleanedText\<close> of the sampled language check: the cleaned 20%-30% window\<close>
  "cleanedSample fullText =
     stripForCheck (slice fullText (nat \<lfloor>real (length fullText) * 0.2\<rfloor>)
                                   (nat \<lfloor>real (length fullText) * 0.3\<rfloor>))"

section \<open>Example inputs\<close>

definition frontMatterDoc :: jsstring where
  \<comment> \<open>seven lines: front matter, boilerplate, narrative and one line of CSS\<close>
  "frontMatterDoc = joinWith 10 (map str
     [''Title page'', ''Project Gutenberg'', ''Copyright 1999 by the author'',
      ''It was a bright cold day in April.'', ''The clocks were striking thirteen.'',
      ''{ color: red }'', ''He went home.''])"

definition sentence1 :: jsstring where
  "sentence1 = str ''This is a sufficiently long narrative sentence about adventure.''"

definition sentence2 :: jsstring where
  "sentence2 = str ''Another equally long narrative sentence follows here today.''"

definition narrative :: jsstring where
  \<comment> \<open>the two-sentence example of the specification\<close>
  "narrative = str ''This is a sufficiently long narrative sentence about adventure. Another equally long narrative sentence follows here today.''"

definition digitHeavy :: jsstring where
  \<comment> \<open>36 characters, 3 of them letters\<close>
  "digitHeavy = str ''abc 1234567890 1234567890 1234567890''"

definition digitsAndPunctuation :: jsstring where
  \<comment> \<open>50 characters, digits and punctuation only\<close>
  "digitsAndPunctuation = str ''12345678901234567890!!!!!!!!!!??????????1234567890''"

definition thirtyPercent :: jsstring where
  \<comment> \<open>110 characters, 33 of them letters\<close>
  "thirtyPercent = str ''abc_______abc_______abc_______abc_______abc_______abc_______abc_______abc_______abc_______abc_______abc_______''"

definition halfLetters :: jsstring where
  \<comment> \<open>110 characters, 55 of them letters\<close>
  "halfLetters = str ''a_a_a_a_a_a_a_a_a_a_a_a_a_a_a_a_a_a_a_a_a_a_a_a_a_a_a_a_a_a_a_a_a_a_a_a_a_a_a_a_a_a_a_a_a_a_a_a_a_a_a_a_a_a_a_''"

definition longHalfDoc :: jsstring where
  \<comment> \<open>1100 characters; the window from 220 to 330 is \<open>halfLetters\<close>, the rest are zeros\<close>
  "longHalfDoc = replicate 220 48 @ halfLetters @ replicate 770 48"

definition shortHalfDoc :: jsstring where
  \<comment> \<open>40 characters; the window from 8 to 12 is \<^verbatim>\<open>a_b_\<close>\<close>
  "shortHalfDoc = str ''00000000a_b_0000000000000000000000000000''"

definition fragmentText :: jsstring where
  \<comment> \<open>a normalized text that ends in a fragment without terminal punctuation\<close>
  "fragmentText = str ''It rained. We stayed in! and then''"

definition tagDoc :: jsstring where
  \<comment> \<open>twenty lines: three tags, then the lines a to q\<close>
  "tagDoc = joinWith 10 (map str
     [''<b>'', ''<b>'', ''<b>'', ''a'', ''b'', ''c'', ''d'', ''e'', ''f'', ''g'', ''h'', ''i'', ''j'', ''k'', ''l'', ''m'', ''n'', ''o'', ''p'', ''q''])"

section \<open>Arithmetic of the thresholds\<close>

text \<open>
  The source computes \<^verbatim>\<open>Math.floor(n * 0.15)\<close> and the ratios in IEEE double arithmetic; the
  model uses the real numbers. For the lengths a string can have the two agree: a product
  \<open>n * 0.15\<close> is either an integer, which the rounded product is as well, or at least
  \<open>1/20\<close> away from one, and a quotient of two lengths is either equal to the threshold or
  further from it than the rounding error of a double.
\<close>

lemma skipCount_eq: "skipCount n = (3 * n) div 20"
proof -
  have eq: "real n * 0.15 = real (3 * n) / real 20" by simp
  show ?thesis unfolding skipCount_def eq floor_divide_of_nat_eq by simp
qed

lemma skipCount_le: "skipCount n \<le> n"
  by (simp add: skipCount_eq)

lemma skipCount_less: "0 < n \<Longrightarrow> skipCount n < n"
  by (simp add: skipCount_eq)

section \<open>Splitting into lines and joining\<close>

lemma splitOn_nonempty: "splitOn sep s \<noteq> []"
  by (induction s) (auto split: list.splits)

lemma joinWith_Cons: "xs \<noteq> [] \<Longrightarrow> joinWith sep (x # xs) = x @ sep # joinWith sep xs"
  by (cases xs) auto

lemma joinWith_splitOn: "joinWith sep (splitOn sep s) = s"
proof (induction s)
  case Nil
  then show ?case by simp
next
  case (Cons c cs)
  show ?case
  proof (cases "c = sep")
    case True
    then show ?thesis using Cons by (simp add: joinWith_Cons splitOn_nonempty)
  next
    case False
    obtain l ls where r: "splitOn sep cs = l # ls"
      using splitOn_nonempty[of sep cs] by (cases "splitOn sep cs") auto
    show ?thesis
    proof (cases ls)
      case Nil
      then show ?thesis using False r Cons by simp
    next
      case (Cons a list)
      then show ?thesis using False r Cons.IH by simp
    qed
  qed
qed

lemma splitOn_no_sep: "l \<in> set (splitOn sep s) \<Longrightarrow> sep \<notin> set l"
proof (induction s arbitrary: l)
  case Nil
  then show ?case by simp
next
  case (Cons c cs)
  show ?case
  proof (cases "c = sep")
    case True
    then show ?thesis using Cons by auto
  next
    case False
    obtain h t where r: "splitOn sep cs = h # t"
      using splitOn_nonempty[of sep cs] by (cases "splitOn sep cs") auto
    have "l = c # h \<or> l \<in> set t" using Cons.prems False r by simp
    then show ?thesis
    proof
      assume "l = c # h"
      moreover have "sep \<notin> set h" using Cons.IH[of h] r by simp
      ultimately show ?thesis using False by simp
    next
      assume "l \<in> set t"
      then show ?thesis using Cons.IH[of l] r by simp
    qed
  qed
qed

lemma splitOn_single: "sep \<notin> set x \<Longrightarrow> splitOn sep x = [x]"
  by (induction x) auto

lemma splitOn_append: "sep \<notin> set x \<Longrightarrow> splitOn sep (x @ sep # r) = x # splitOn sep r"
  by (induction x) auto

lemma splitOn_joinWith:
  "xs \<noteq> [] \<Longrightarrow> (\<forall>l \<in> set xs. sep \<notin> set l) \<Longrightarrow> splitOn sep (joinWith sep xs) = xs"
proof (induction sep xs rule: joinWith.induct)
  case (1 sep)
  then show ?case by simp
next
  case (2 sep x)
  then show ?case by (simp add: splitOn_single)
next
  case (3 sep x y ys)
  then show ?case by (simp add: splitOn_append)
qed

lemma splitLines_joinWith_drop:
  assumes "k < length (splitLines t)"
  shows "splitLines (joinWith 10 (drop k (splitLines t))) = drop k (splitLines t)"
  unfolding splitLines_def
proof (rule splitOn_joinWith)
  show "drop k (splitOn 10 t) \<noteq> []" using assms by (simp add: splitLines_def)
  show "\<forall>l\<in>set (drop k (splitOn 10 t)). 10 \<notin> set l"
    using splitOn_no_sep[of _ 10 t] by (meson in_set_dropD)
qed

lemma contentLines_with_eq:
  "contentLines_with ps t = drop (skipCount (length (splitLines t))) (splitLines t)"
  by (simp add: contentLines_with_def Let_def)

lemma contentLines_markup_with_eq:
  "contentLines_markup_with ps t =
     drop (skipCount (length (filter keepLine (splitLines t)))) (filter keepLine (splitLines t))"
  by (simp add: contentLines_markup_with_def Let_def)

lemma splitLines_filterMainContent_with:
  "splitLines (filterMainContent_with ps t) = drop (skipCount (length (splitLines t))) (splitLines t)"
proof -
  have "0 < length (splitLines t)" by (simp add: splitLines_def splitOn_nonempty)
  then have "skipCount (length (splitLines t)) < length (splitLines t)" by (rule skipCount_less)
  then show ?thesis
    by (simp add: filterMainContent_with_def contentLines_with_eq splitLines_joinWith_drop)
qed

lemma filter_splitLines_no_nl: "l \<in> set (drop k (filter P (splitLines t))) \<Longrightarrow> 10 \<notin> set l"
  using splitOn_no_sep[of l 10 t] by (auto simp: splitLines_def dest!: in_set_dropD)

lemma splitLines_filterMainContent_markup_with:
  "splitLines (filterMainContent_markup_with ps t) =
     (if filter keepLine (splitLines t) = [] then [[]]
      else drop (skipCount (length (filter keepLine (splitLines t)))) (filter keepLine (splitLines t)))"
proof (cases "filter keepLine (splitLines t) = []")
  case True
  then show ?thesis
    by (simp add: filterMainContent_markup_with_def contentLines_markup_with_eq splitLines_def)
next
  case False
  let ?kept = "filter keepLine (splitLines t)"
  have "0 < length ?kept" using False by simp
  then have "skipCount (length ?kept) < length ?kept" by (rule skipCount_less)
  then have ne: "drop (skipCount (length ?kept)) ?kept \<noteq> []" by simp
  have "splitOn 10 (joinWith 10 (drop (skipCount (length ?kept)) ?kept)) = drop (skipCount (length ?kept)) ?kept"
    using ne filter_splitLines_no_nl by (intro splitOn_joinWith) auto
  then show ?thesis using False
    by (simp add: filterMainContent_markup_with_def contentLines_markup_with_eq splitLines_def)
qed

section \<open>Trimming and collapsing whitespace\<close>

lemma isSpace_32: "isSpace 32"
  by (simp add: isSpace_def)

lemma sublist_trim: "sublist (trim s) s"
proof -
  have "sublist (dropWhile isSpace (rev (dropWhile isSpace s))) (rev (dropWhile isSpace s))"
    by (rule sublist_dropWhile)
  then have "sublist (trim s) (dropWhile isSpace s)"
    by (simp add: trim_def sublist_rev_left)
  then show ?thesis
    using sublist_dropWhile sublist_order.order_trans by blast
qed

lemma set_sublist: "sublist a b \<Longrightarrow> set a \<subseteq> set b"
  by (auto simp: sublist_def)

lemma set_trim: "set (trim s) \<subseteq> set s"
  by (rule set_sublist[OF sublist_trim])

lemma length_trim_le: "length (trim s) \<le> length s"
  by (rule sublist_length_le[OF sublist_trim])

lemma rev_dropWhile_rev_Cons:
  "\<not> P a \<Longrightarrow> rev (dropWhile P (rev (a # ys))) = a # rev (dropWhile P (rev ys))"
  by (simp add: dropWhile_append)

lemma trim_hd: "trim s \<noteq> [] \<Longrightarrow> \<not> isSpace (hd (trim s))"
proof -
  assume ne: "trim s \<noteq> []"
  have dne: "dropWhile isSpace s \<noteq> []"
  proof
    assume "dropWhile isSpace s = []"
    then have "trim s = []" unfolding trim_def by (simp only: rev.simps dropWhile.simps)
    with ne show False by simp
  qed
  then obtain a ys where d: "dropWhile isSpace s = a # ys" by (cases "dropWhile isSpace s") auto
  have na: "\<not> isSpace a" using hd_dropWhile[OF dne] d by simp
  have "trim s = a # rev (dropWhile isSpace (rev ys))"
    unfolding trim_def d by (rule rev_dropWhile_rev_Cons[of isSpace a ys, OF na])
  then show ?thesis using na by simp
qed

lemma trim_last: "trim s \<noteq> [] \<Longrightarrow> \<not> isSpace (last (trim s))"
proof -
  assume ne: "trim s \<noteq> []"
  let ?r = "dropWhile isSpace (rev (dropWhile isSpace s))"
  have rne: "?r \<noteq> []" using ne by (simp add: trim_def)
  have "last (trim s) = hd ?r" using rne by (simp add: trim_def last_rev)
  then show ?thesis using hd_dropWhile[OF rne] by simp
qed

lemma trim_fixed:
  assumes "s = [] \<or> (\<not> isSpace (hd s) \<and> \<not> isSpace (last s))"
  shows "trim s = s"
proof (cases s)
  case Nil
  then show ?thesis by (simp add: trim_def)
next
  case (Cons a ys)
  then have a: "\<not> isSpace a" and l: "\<not> isSpace (last s)" using assms by auto
  have "dropWhile isSpace s = s" using a Cons by simp
  moreover have "dropWhile isSpace (rev s) = rev s"
  proof -
    have "rev s \<noteq> []" using Cons by simp
    then obtain b zs where r: "rev s = b # zs" by (cases "rev s") auto
    have "hd (rev s) = last s" by (rule hd_rev)
    then have "\<not> isSpace b" using l r by simp
    then show ?thesis by (simp add: r)
  qed
  ultimately show ?thesis by (simp add: trim_def)
qed

lemma trim_idem: "trim (trim s) = trim s"
  by (rule trim_fixed) (use trim_hd trim_last in blast)

lemma set_replaceRuns: "c \<in> set (replaceRuns p s) \<Longrightarrow> c = 32 \<or> (c \<in> set s \<and> \<not> p c)"
proof (induction p s rule: replaceRuns.induct)
  case (1 p)
  then show ?case by simp
next
  case (2 p c' cs)
  show ?case
  proof (cases "p c'")
    case True
    then have "c = 32 \<or> c \<in> set (replaceRuns p (dropWhile p cs))" using 2 by simp
    then show ?thesis using 2(1)[OF True] set_dropWhileD by fastforce
  next
    case False
    then show ?thesis using 2 by auto
  qed
qed

lemma replaceRuns_hd:
  "s \<noteq> [] \<Longrightarrow> \<not> p (hd s) \<Longrightarrow> replaceRuns p s \<noteq> [] \<and> hd (replaceRuns p s) = hd s"
  by (cases s) auto

lemma not_sublist_Cons:
  "\<not> sublist [32, 32] (c # s) \<longleftrightarrow> \<not> (c = 32 \<and> s \<noteq> [] \<and> hd s = (32::nat)) \<and> \<not> sublist [32, 32] s"
  by (cases s) (auto simp: sublist_Cons_right)

lemma replaceRuns_noDouble: "\<not> sublist [32, 32] (replaceRuns isSpace s)"
proof (induction "isSpace" s rule: replaceRuns.induct)
  case 1
  then show ?case by simp
next
  case (2 c cs)
  show ?case
  proof (cases "isSpace c")
    case True
    let ?d = "dropWhile isSpace cs"
    have ih: "\<not> sublist [32, 32] (replaceRuns isSpace ?d)" using 2(1)[OF True] .
    have "replaceRuns isSpace ?d \<noteq> [] \<Longrightarrow> hd (replaceRuns isSpace ?d) \<noteq> 32"
    proof -
      assume ne: "replaceRuns isSpace ?d \<noteq> []"
      have dne: "?d \<noteq> []"
      proof
        assume "?d = []"
        then have "replaceRuns isSpace ?d = []" by (simp only: replaceRuns.simps)
        with ne show False by simp
      qed
      have "\<not> isSpace (hd ?d)" by (rule hd_dropWhile[OF dne])
      then show ?thesis using replaceRuns_hd[OF dne] isSpace_32 by auto
    qed
    then show ?thesis using True ih by (auto simp: not_sublist_Cons)
  next
    case False
    then have "c \<noteq> 32" using isSpace_32 by auto
    then show ?thesis using False 2(2)[OF False] by (simp add: not_sublist_Cons)
  qed
qed

lemma singleSpaced_replaceRuns: "singleSpaced (replaceRuns isSpace s)"
  unfolding singleSpaced_def using set_replaceRuns[of _ isSpace s] replaceRuns_noDouble by blast

lemma singleSpaced_sublist: "sublist a b \<Longrightarrow> singleSpaced b \<Longrightarrow> singleSpaced a"
  unfolding singleSpaced_def
  using set_sublist sublist_order.order_trans by blast

lemma isNormalized_singleSpaced: "isNormalized t \<Longrightarrow> singleSpaced t"
  unfolding isNormalized_def
  using singleSpaced_sublist[OF sublist_trim singleSpaced_replaceRuns] by metis

section \<open>Splitting into sentences\<close>

lemma splitFrom_nonempty: "splitFrom pt s \<noteq> []"
  by (induction pt s rule: splitFrom.induct) (auto split: list.splits)

lemma splitFrom_hd_prefix: "splitFrom pt s = seg # rest \<Longrightarrow> prefix seg s"
proof (induction pt s arbitrary: seg rest rule: splitFrom.induct)
  case (1 pt)
  then show ?case by simp
next
  case (2 pt c cs)
  show ?case
  proof (cases "pt \<and> isSpace c \<and> startsUpper (dropWhile isSpace cs)")
    case True
    then show ?thesis using 2(3) by auto
  next
    case False
    obtain h t where r: "splitFrom (isTerminal c) cs = h # t"
      using splitFrom_nonempty[of "isTerminal c" cs] by (cases "splitFrom (isTerminal c) cs") auto
    have "prefix h cs" using 2(2)[OF False r] .
    moreover have "seg = c # h" using 2(3) False r by simp
    ultimately show ?thesis by simp
  qed
qed

lemma splitFrom_sublist: "seg \<in> set (splitFrom pt s) \<Longrightarrow> sublist seg s"
proof (induction pt s arbitrary: seg rule: splitFrom.induct)
  case (1 pt)
  then show ?case by simp
next
  case (2 pt c cs)
  show ?case
  proof (cases "pt \<and> isSpace c \<and> startsUpper (dropWhile isSpace cs)")
    case True
    then have "seg = [] \<or> seg \<in> set (splitFrom False (dropWhile isSpace cs))"
      using 2(3) by auto
    then show ?thesis
    proof
      assume "seg = []"
      then show ?thesis by simp
    next
      assume "seg \<in> set (splitFrom False (dropWhile isSpace cs))"
      then have "sublist seg (dropWhile isSpace cs)" using 2(1)[OF True] by simp
      then have "sublist seg cs" using sublist_dropWhile sublist_order.order_trans by blast
      then show ?thesis by (simp add: sublist_Cons_right)
    qed
  next
    case False
    obtain h t where r: "splitFrom (isTerminal c) cs = h # t"
      using splitFrom_nonempty[of "isTerminal c" cs] by (cases "splitFrom (isTerminal c) cs") auto
    have "seg = c # h \<or> seg \<in> set t" using 2(3) False r by auto
    then show ?thesis
    proof
      assume "seg = c # h"
      moreover have "prefix h cs" using splitFrom_hd_prefix[OF r] .
      ultimately show ?thesis by (simp add: sublist_Cons_right)
    next
      assume "seg \<in> set t"
      then have "sublist seg cs" using 2(2)[OF False] r by simp
      then show ?thesis by (simp add: sublist_Cons_right)
    qed
  qed
qed

lemma splitFrom_upper_hd:
  "startsUpper s \<Longrightarrow> splitFrom False s = seg # rest \<Longrightarrow> startsUpper seg"
  by (cases s) (auto simp: startsUpper_def split: list.splits)

lemma splitFrom_shape:
  "splitFrom pt s = seg # rest \<Longrightarrow>
     (rest \<noteq> [] \<longrightarrow> endOK pt seg) \<and> (\<forall>x \<in> set (butlast rest). endOK False x)
     \<and> (\<forall>x \<in> set rest. startsUpper x)"
proof (induction pt s arbitrary: seg rest rule: splitFrom.induct)
  case (1 pt)
  then show ?case by simp
next
  case (2 pt c cs)
  show ?case
  proof (cases "pt \<and> isSpace c \<and> startsUpper (dropWhile isSpace cs)")
    case True
    then have seg: "seg = []" and rest: "rest = splitFrom False (dropWhile isSpace cs)"
      using 2(3) by auto
    obtain h t where r: "splitFrom False (dropWhile isSpace cs) = h # t"
      using splitFrom_nonempty[of False "dropWhile isSpace cs"]
      by (cases "splitFrom False (dropWhile isSpace cs)") auto
    have ih: "(t \<noteq> [] \<longrightarrow> endOK False h) \<and> (\<forall>x \<in> set (butlast t). endOK False x)
       \<and> (\<forall>x \<in> set t. startsUpper x)"
      using 2(1)[OF True r] .
    have uh: "startsUpper h" using splitFrom_upper_hd[OF _ r] True by simp
    have "endOK pt seg" using True seg by (simp add: endOK_def)
    moreover have "\<forall>x \<in> set (butlast rest). endOK False x"
      using ih rest r by auto
    moreover have "\<forall>x \<in> set rest. startsUpper x" using ih uh rest r by auto
    ultimately show ?thesis by simp
  next
    case False
    obtain h t where r: "splitFrom (isTerminal c) cs = h # t"
      using splitFrom_nonempty[of "isTerminal c" cs] by (cases "splitFrom (isTerminal c) cs") auto
    have seg: "seg = c # h" and rest: "rest = t" using 2(3) False r by auto
    have ih: "(t \<noteq> [] \<longrightarrow> endOK (isTerminal c) h) \<and> (\<forall>x \<in> set (butlast t). endOK False x)
       \<and> (\<forall>x \<in> set t. startsUpper x)"
      using 2(2)[OF False r] .
    have "endOK (isTerminal c) h \<Longrightarrow> endOK pt (c # h)" by (simp add: endOK_def)
    then show ?thesis using ih seg rest by simp
  qed
qed

lemma singleSpaced_Cons: "singleSpaced (c # cs) \<Longrightarrow> singleSpaced cs"
  by (rule singleSpaced_sublist[of cs "c # cs"]) (auto simp: sublist_Cons_right)

lemma splitFrom_rejoin: "singleSpaced s \<Longrightarrow> joinWith 32 (splitFrom pt s) = s"
proof (induction pt s rule: splitFrom.induct)
  case (1 pt)
  then show ?case by simp
next
  case (2 pt c cs)
  have tl: "singleSpaced cs" using 2(3) by (rule singleSpaced_Cons)
  show ?case
  proof (cases "pt \<and> isSpace c \<and> startsUpper (dropWhile isSpace cs)")
    case True
    have c: "c = 32" using 2(3) True by (simp add: singleSpaced_def)
    have ne: "cs \<noteq> []" using True by (auto simp: startsUpper_def)
    have "hd cs \<noteq> 32" using 2(3) c ne by (simp add: singleSpaced_def not_sublist_Cons)
    moreover have "isSpace (hd cs) \<longrightarrow> hd cs = 32" using tl ne by (simp add: singleSpaced_def)
    ultimately have "\<not> isSpace (hd cs)" by blast
    then have d: "dropWhile isSpace cs = cs" using ne by (cases cs) auto
    have "joinWith 32 (splitFrom False cs) = cs" using 2(1)[OF True] tl d by simp
    then show ?thesis using True c d by (simp add: joinWith_Cons splitFrom_nonempty)
  next
    case False
    obtain h t where r: "splitFrom (isTerminal c) cs = h # t"
      using splitFrom_nonempty[of "isTerminal c" cs] by (cases "splitFrom (isTerminal c) cs") auto
    have ih: "joinWith 32 (h # t) = cs" using 2(2)[OF False tl] r by simp
    show ?thesis using False r ih by (cases t) auto
  qed
qed

section \<open>Evaluating the patterns\<close>

lemmas char_defs = isSpace_def isWord_def isLetter_def isLower_def isUpper_def isDigit_def
  isTerminal_def asciiLower_def

lemmas rx_defs = rxTestStart_def chr_def chr_i_def many1_def opt_def anyChar_def dot_def ws_def
  digit_def wordDash_def hexDigit_def hex3to6_def letters3_def

lemmas line_rx_defs = re_cssSelector_def re_cssClass_def re_cssProperty_def re_htmlCssMixed_def
  re_tagAtStart_def re_closingTagAtEnd_def re_braceBlock_def re_webComponent_def
  re_styleReference_def re_jsCode_def re_cssValue_def re_onlyBrackets_def re_numberBrace_def

lemma keepLine_empty: "keepLine []"
  unfolding keepLine_def Let_def
  by (simp add: trim_def str_def char_defs rx_defs line_rx_defs)

lemma keepLine_gutenberg: "keepLine (str ''Project Gutenberg'')"
  unfolding keepLine_def Let_def
  by (simp add: trim_def str_def char_defs rx_defs line_rx_defs)

lemma keepLine_copyright: "keepLine (str ''Copyright'')"
  unfolding keepLine_def Let_def
  by (simp add: trim_def str_def char_defs rx_defs line_rx_defs)


section \<open>The extractor and the examples\<close>

lemma frontMatterDoc_lines:
  "splitLines frontMatterDoc = map str
     [''Title page'', ''Project Gutenberg'', ''Copyright 1999 by the author'',
      ''It was a bright cold day in April.'', ''The clocks were striking thirteen.'',
      ''{ color: red }'', ''He went home.'']"
  unfolding frontMatterDoc_def splitLines_def
  by (rule splitOn_joinWith) (simp_all add: str_def)

lemma keepLine_frontMatter:
  "keepLine (str ''Title page'')"
  "keepLine (str ''Copyright 1999 by the author'')"
  "keepLine (str ''It was a bright cold day in April.'')"
  "keepLine (str ''The clocks were striking thirteen.'')"
  "\<not> keepLine (str ''{ color: red }'')"
  "keepLine (str ''He went home.'')"
  unfolding keepLine_def Let_def
  by (simp_all add: trim_def str_def char_defs rx_defs line_rx_defs)

lemma frontMatterDoc_kept:
  "filter keepLine (splitLines frontMatterDoc) = map str
     [''Title page'', ''Project Gutenberg'', ''Copyright 1999 by the author'',
      ''It was a bright cold day in April.'', ''The clocks were striking thirteen.'',
      ''He went home.'']"
  by (simp add: frontMatterDoc_lines keepLine_frontMatter keepLine_gutenberg)

lemma frontMatterDoc_skip:
  "skipCount (length (splitLines frontMatterDoc)) = 1"
  by (simp add: frontMatterDoc_lines skipCount_eq)

lemma frontMatterDoc_skip_markup:
  "skipCount (length (filter keepLine (splitLines frontMatterDoc))) = 0"
  by (simp add: frontMatterDoc_kept skipCount_eq)

lemma gutenberg_matches_skipPatterns:
  "list_ex (\<lambda>p. rxTest p (str ''Project Gutenberg'')) skipPatterns"
  by (simp add: skipPatterns_def str_def char_defs rx_defs)

lemmas sentence_rx_defs = re_selectorChain_def re_cssToken_def re_braces_def re_displayValue_def

lemma letterRatioOk_eq: "letterRatioOk s = (3 * length s < 10 * letterCount s)"
proof (cases "length s = 0")
  case True
  then show ?thesis by (simp add: letterRatioOk_def letterCount_def)
next
  case False
  then have "0 < real (length s)" by simp
  then show ?thesis
    unfolding letterRatioOk_def Let_def
    by (simp add: field_simps) linarith
qed

lemma narrative_lines: "splitLines narrative = [narrative]"
  unfolding splitLines_def by (rule splitOn_single) (simp add: narrative_def str_def)

lemma narrative_main: "filterMainContent narrative = narrative"
  by (simp add: filterMainContent_def filterMainContent_with_def contentLines_with_eq
      narrative_lines skipCount_eq)

lemma narrative_keep: "keepLine narrative"
  unfolding keepLine_def Let_def narrative_def
  by (simp add: trim_def str_def char_defs rx_defs line_rx_defs)

lemma narrative_main_markup: "filterMainContent_markup narrative = narrative"
  by (simp add: filterMainContent_markup_def filterMainContent_markup_with_def
      contentLines_markup_with_eq narrative_lines narrative_keep skipCount_eq)

lemma narrative_clean: "cleanText narrative = narrative"
  unfolding cleanText_def narrative_def
  by (simp add: trim_def str_def char_defs)

lemma narrative_collapse: "replaceRuns isSpace (replaceRuns (\<lambda>c. c = 10) narrative) = narrative"
  unfolding narrative_def
  by (simp add: str_def char_defs)

lemma narrative_split: "splitSentences narrative = [sentence1, sentence2]"
  unfolding narrative_def sentence1_def sentence2_def splitSentences_def
  by (simp add: str_def char_defs startsUpper_def)

lemma sentence_trim: "trim sentence1 = sentence1" "trim sentence2 = sentence2"
  unfolding sentence1_def sentence2_def
  by (simp_all add: trim_def str_def char_defs)

lemma sentence_accept_early: "accept_early L sentence1" "accept_early L sentence2"
  unfolding accept_early_def Let_def hasExcludedKeyword_def sentence1_def sentence2_def
  by (simp_all add: str_def toLowerCase_def isAscii_def excludeKeywords_early_def
      hasLetters_def char_defs rx_defs)

lemma sentence_accept_ocr: "accept_ocr L sentence1" "accept_ocr L sentence2"
  unfolding accept_ocr_def Let_def hasExcludedKeyword_def sentence1_def sentence2_def
  by (simp_all add: str_def toLowerCase_def isAscii_def excludeKeywords_ocr_def
      hasLetters_def letterRatioOk_eq letterCount_def char_defs rx_defs)

lemma sentence_accept_markup: "accept_markup L sentence1" "accept_markup L sentence2"
  unfolding accept_markup_def Let_def hasExcludedKeyword_def sentence1_def sentence2_def
  by (simp_all add: str_def toLowerCase_def isAscii_def excludeKeywords_markup_def
      hasLetters_def letterRatioOk_eq letterCount_def char_defs rx_defs sentence_rx_defs)

lemma narrative_ocr: "extractSentences_ocr L narrative = [sentence1, sentence2]"
  by (simp add: extractSentences_ocr_def narrative_main narrative_clean narrative_split
      sentence_trim sentence_accept_ocr)

lemma narrative_markup: "extractSentences_markup L narrative = [sentence1, sentence2]"
  by (simp add: extractSentences_markup_def narrative_main_markup narrative_clean narrative_split
      sentence_trim sentence_accept_markup)

lemma narrative_early: "extractSentences_early L narrative = [sentence1, sentence2]"
  by (simp add: extractSentences_early_def narrative_main narrative_collapse narrative_split
      sentence_trim sentence_accept_early)

lemma empty_ocr: "extractSentences_ocr L [] = []"
  by (simp add: extractSentences_ocr_def filterMainContent_def filterMainContent_with_def
      contentLines_with_eq splitLines_def skipCount_eq cleanText_def trim_def splitSentences_def
      accept_ocr_def)

lemma empty_markup: "extractSentences_markup L [] = []"
  by (simp add: extractSentences_markup_def filterMainContent_markup_def
      filterMainContent_markup_with_def contentLines_markup_with_eq splitLines_def skipCount_eq
      keepLine_empty cleanText_def trim_def splitSentences_def accept_markup_def)

lemma empty_early: "extractSentences_early L [] = []"
  by (simp add: extractSentences_early_def filterMainContent_def filterMainContent_with_def
      contentLines_with_eq splitLines_def skipCount_eq trim_def splitSentences_def
      accept_early_def)

lemma letterRatioOk_real: "letterRatioOk s = (real (letterCount s) / real (length s) > 0.3)"
  by (simp add: letterRatioOk_def Let_def)

lemma accept_early_D:
  "accept_early L s \<Longrightarrow> 20 \<le> length s \<and> length s \<le> 500
     \<and> \<not> hasExcludedKeyword L excludeKeywords_early (toLowerCase L s) \<and> hasLetters s"
  unfolding accept_early_def Let_def by (auto split: if_splits)

lemma accept_ocr_D:
  "accept_ocr L s \<Longrightarrow> 15 \<le> length s \<and> length s \<le> 600
     \<and> \<not> hasExcludedKeyword L excludeKeywords_ocr (toLowerCase L s)
     \<and> hasLetters s \<and> letterRatioOk s"
  unfolding accept_ocr_def Let_def by (auto split: if_splits)

lemma accept_markup_D:
  "accept_markup L s \<Longrightarrow> 15 \<le> length s \<and> length s \<le> 600
     \<and> \<not> hasExcludedKeyword L excludeKeywords_markup (toLowerCase L s)
     \<and> hasLetters s \<and> letterRatioOk s"
  unfolding accept_markup_def Let_def by (auto split: if_splits)

lemma extract_early_D:
  "s \<in> set (extractSentences_early L t) \<Longrightarrow>
     accept_early L s \<and> (\<exists>seg \<in> set (splitSentences
        (replaceRuns isSpace (replaceRuns (\<lambda>c. c = 10) (filterMainContent t)))). s = trim seg)"
  unfolding extractSentences_early_def Let_def by auto

lemma extract_ocr_D:
  "s \<in> set (extractSentences_ocr L t) \<Longrightarrow>
     accept_ocr L s \<and> (\<exists>seg \<in> set (splitSentences (cleanText (filterMainContent t))). s = trim seg)"
  unfolding extractSentences_ocr_def Let_def by auto

lemma extract_markup_D:
  "s \<in> set (extractSentences_markup L t) \<Longrightarrow>
     accept_markup L s
     \<and> (\<exists>seg \<in> set (splitSentences (cleanText (filterMainContent_markup t))). s = trim seg)"
  unfolding extractSentences_markup_def Let_def by auto

lemma cleanText_chars: "c \<in> set (cleanText m) \<Longrightarrow> isWord c \<or> c = 32 \<or> isTerminal c"
proof -
  assume "c \<in> set (cleanText m)"
  then have "c \<in> set (replaceRuns isSpace
       (map (\<lambda>c. if isWord c \<or> isSpace c \<or> isTerminal c then c else 32)
         (replaceRuns isSpace (replaceRuns (\<lambda>c. c = 10) m))))"
    unfolding cleanText_def using set_trim by blast
  then have "c = 32 \<or> (c \<in> set (map (\<lambda>c. if isWord c \<or> isSpace c \<or> isTerminal c then c else 32)
         (replaceRuns isSpace (replaceRuns (\<lambda>c. c = 10) m))) \<and> \<not> isSpace c)"
    by (rule set_replaceRuns)
  then show ?thesis by (auto split: if_splits)
qed

lemma cleanText_singleSpaced: "singleSpaced (cleanText m)"
  unfolding cleanText_def
  by (rule singleSpaced_sublist[OF sublist_trim singleSpaced_replaceRuns])

lemma sentence_sublist: "seg \<in> set (splitSentences c) \<Longrightarrow> sublist (trim seg) c"
  unfolding splitSentences_def
  using splitFrom_sublist sublist_trim sublist_order.order_trans by blast

lemma noDouble_index:
  "\<not> sublist [32, 32] s \<Longrightarrow> Suc i < length s \<Longrightarrow> \<not> (s ! i = 32 \<and> s ! Suc i = (32::nat))"
proof
  assume ns: "\<not> sublist [32, 32] s" and i: "Suc i < length s" and e: "s ! i = 32 \<and> s ! Suc i = 32"
  have "s = take i s @ [s ! i, s ! Suc i] @ drop (Suc (Suc i)) s"
    using i by (metis Cons_nth_drop_Suc Suc_lessD append_Cons append_Nil append_take_drop_id)
  then have "sublist [s ! i, s ! Suc i] s" unfolding sublist_def by blast
  then show False using ns e by simp
qed

lemma cleaned_sentence:
  assumes "seg \<in> set (splitSentences (cleanText m))" and "15 \<le> length (trim seg)"
  shows "(\<forall>c \<in> set (trim seg). isWord c \<or> c = 32 \<or> isTerminal c)
     \<and> trim seg \<noteq> [] \<and> \<not> isSpace (hd (trim seg)) \<and> \<not> isSpace (last (trim seg))
     \<and> \<not> sublist [32, 32] (trim seg)"
proof -
  have sub: "sublist (trim seg) (cleanText m)" using assms(1) by (rule sentence_sublist)
  have ne: "trim seg \<noteq> []" using assms(2) by auto
  have "\<forall>c \<in> set (trim seg). isWord c \<or> c = 32 \<or> isTerminal c"
    using set_sublist[OF sub] cleanText_chars by blast
  moreover have "\<not> sublist [32, 32] (trim seg)"
    using singleSpaced_sublist[OF sub cleanText_singleSpaced] by (simp add: singleSpaced_def)
  ultimately show ?thesis using ne trim_hd[OF ne] trim_last[OF ne] by blast
qed

lemma allowed_not_symbol:
  "isWord c \<or> c = 32 \<or> isTerminal c \<Longrightarrow> c \<noteq> 44 \<and> c \<noteq> 39 \<and> c \<noteq> 34 \<and> c < 128"
  by (auto simp: char_defs)

lemma includes_js_iff: "includes_js s k = sublist k s"
  by (induction s) (auto simp: sublist_Cons_right)

lemma sublist_map: "sublist v s \<Longrightarrow> sublist (map f v) (map f s)"
  unfolding sublist_def by (metis map_append)

lemma keywords_ascii:
  "\<forall>k \<in> set excludeKeywords_ocr. isAscii k"
  "\<forall>k \<in> set excludeKeywords_markup. isAscii k"
  by (simp_all add: excludeKeywords_ocr_def excludeKeywords_markup_def isAscii_def str_def)

lemma no_keyword:
  assumes "\<not> hasExcludedKeyword L kws (toLowerCase L s)" and "isAscii s"
    and "\<forall>k \<in> set kws. isAscii k" and "k \<in> set kws" and "sublist v s"
  shows "map asciiLower v \<noteq> map asciiLower k"
proof
  assume eq: "map asciiLower v = map asciiLower k"
  have "sublist (map asciiLower v) (map asciiLower s)" using assms(5) by (rule sublist_map)
  then have "includes_js (toLowerCase L s) (toLowerCase L k)"
    using assms(2,3,4) eq by (simp add: includes_js_iff toLowerCase_def)
  then have "hasExcludedKeyword L kws (toLowerCase L s)"
    unfolding hasExcludedKeyword_def list_ex_iff using assms(4) by blast
  then show False using assms(1) by simp
qed

lemma digitHeavy_early: "extractSentences_early L digitHeavy = [digitHeavy]"
proof -
  have l: "splitLines digitHeavy = [digitHeavy]"
    unfolding splitLines_def by (rule splitOn_single) (simp add: digitHeavy_def str_def)
  have m: "filterMainContent digitHeavy = digitHeavy"
    by (simp add: filterMainContent_def filterMainContent_with_def contentLines_with_eq l
        skipCount_eq)
  have c: "replaceRuns isSpace (replaceRuns (\<lambda>c. c = 10) digitHeavy) = digitHeavy"
    unfolding digitHeavy_def by (simp add: str_def char_defs)
  have s: "splitSentences digitHeavy = [digitHeavy]"
    unfolding digitHeavy_def splitSentences_def by (simp add: str_def char_defs startsUpper_def)
  have t: "trim digitHeavy = digitHeavy"
    unfolding digitHeavy_def by (simp add: trim_def str_def char_defs)
  have a: "accept_early L digitHeavy"
    unfolding accept_early_def Let_def hasExcludedKeyword_def digitHeavy_def
    by (simp add: str_def toLowerCase_def isAscii_def excludeKeywords_early_def
        hasLetters_def char_defs rx_defs)
  show ?thesis by (simp add: extractSentences_early_def m c s t a)
qed

lemma digitHeavy_ratio: "\<not> real (letterCount digitHeavy) / real (length digitHeavy) > 0.3"
proof -
  have "\<not> letterRatioOk digitHeavy"
    unfolding letterRatioOk_eq digitHeavy_def by (simp add: letterCount_def str_def char_defs)
  then show ?thesis by (simp add: letterRatioOk_real)
qed

lemma frontMatterDoc_main:
  "filterMainContent frontMatterDoc = joinWith 10 (map str
     [''Project Gutenberg'', ''Copyright 1999 by the author'',
      ''It was a bright cold day in April.'', ''The clocks were striking thirteen.'',
      ''{ color: red }'', ''He went home.''])"
  by (simp add: filterMainContent_def filterMainContent_with_def contentLines_with_eq
      frontMatterDoc_skip) (simp add: frontMatterDoc_lines)

lemma frontMatterDoc_clean:
  "cleanText (filterMainContent frontMatterDoc) =
     str ''Project Gutenberg Copyright 1999 by the author It was a bright cold day in April. The clocks were striking thirteen. color red He went home.''"
  unfolding frontMatterDoc_main cleanText_def
  by (simp add: str_def trim_def char_defs)

lemma frontMatterDoc_split:
  "splitSentences (str ''Project Gutenberg Copyright 1999 by the author It was a bright cold day in April. The clocks were striking thirteen. color red He went home.'') =
    [str ''Project Gutenberg Copyright 1999 by the author It was a bright cold day in April.'',
     str ''The clocks were striking thirteen. color red He went home.'']"
  unfolding splitSentences_def
  by (simp add: str_def char_defs startsUpper_def)

lemma frontMatterDoc_trim:
  "trim (str ''Project Gutenberg Copyright 1999 by the author It was a bright cold day in April.'')
     = str ''Project Gutenberg Copyright 1999 by the author It was a bright cold day in April.''"
  "trim (str ''The clocks were striking thirteen. color red He went home.'')
     = str ''The clocks were striking thirteen. color red He went home.''"
  by (simp_all add: str_def trim_def char_defs)

lemma frontMatterDoc_reject:
  "\<not> accept_ocr L (str ''Project Gutenberg Copyright 1999 by the author It was a bright cold day in April.'')"
  unfolding accept_ocr_def Let_def hasExcludedKeyword_def
  by (simp add: str_def toLowerCase_def isAscii_def excludeKeywords_ocr_def char_defs)

lemma frontMatterDoc_accept:
  "accept_ocr L (str ''The clocks were striking thirteen. color red He went home.'')"
  unfolding accept_ocr_def Let_def hasExcludedKeyword_def
  by (simp add: str_def toLowerCase_def isAscii_def excludeKeywords_ocr_def
      hasLetters_def letterRatioOk_eq letterCount_def char_defs rx_defs)

lemma frontMatterDoc_ocr:
  "extractSentences_ocr L frontMatterDoc =
     [str ''The clocks were striking thirteen. color red He went home.'']"
  unfolding extractSentences_ocr_def Let_def frontMatterDoc_clean frontMatterDoc_split
  by (simp add: frontMatterDoc_trim frontMatterDoc_reject frontMatterDoc_accept)

lemma tagDoc_lines:
  "splitLines tagDoc = map str
     [''<b>'', ''<b>'', ''<b>'', ''a'', ''b'', ''c'', ''d'', ''e'', ''f'', ''g'', ''h'', ''i'', ''j'', ''k'', ''l'', ''m'', ''n'', ''o'', ''p'', ''q'']"
  unfolding tagDoc_def splitLines_def
  by (rule splitOn_joinWith) (simp_all add: str_def)

lemma keepLine_tag: "\<not> keepLine (str ''<b>'')"
  unfolding keepLine_def Let_def
  by (simp add: trim_def str_def char_defs rx_defs line_rx_defs)

lemma keepLine_letters:
  "keepLine (str ''a'')"
  "keepLine (str ''b'')"
  "keepLine (str ''c'')"
  "keepLine (str ''d'')"
  "keepLine (str ''e'')"
  "keepLine (str ''f'')"
  "keepLine (str ''g'')"
  "keepLine (str ''h'')"
  "keepLine (str ''i'')"
  "keepLine (str ''j'')"
  "keepLine (str ''k'')"
  "keepLine (str ''l'')"
  "keepLine (str ''m'')"
  "keepLine (str ''n'')"
  "keepLine (str ''o'')"
  "keepLine (str ''p'')"
  "keepLine (str ''q'')"
  unfolding keepLine_def Let_def
  by (simp_all add: trim_def str_def char_defs rx_defs line_rx_defs)

lemma tagDoc_kept:
  "filter keepLine (splitLines tagDoc) = map str
     [''a'', ''b'', ''c'', ''d'', ''e'', ''f'', ''g'', ''h'', ''i'', ''j'', ''k'', ''l'', ''m'', ''n'', ''o'', ''p'', ''q'']"
  by (simp add: tagDoc_lines keepLine_tag keepLine_letters)

lemma tagDoc_skip: "nat \<lfloor>real (length (splitLines tagDoc)) * 0.15\<rfloor> = 3"
proof -
  have "length (splitLines tagDoc) = 20" by (simp add: tagDoc_lines)
  then show ?thesis using skipCount_eq[of 20] by (simp add: skipCount_def)
qed

lemma tagDoc_skip_markup:
  "nat \<lfloor>real (length (filter keepLine (splitLines tagDoc))) * 0.15\<rfloor> = 2"
proof -
  have "length (filter keepLine (splitLines tagDoc)) = 17" by (simp add: tagDoc_kept)
  then show ?thesis using skipCount_eq[of 17] by (simp add: skipCount_def)
qed

lemma tagDoc_markup_lines:
  "splitLines (filterMainContent_markup tagDoc) = map str
     [''c'', ''d'', ''e'', ''f'', ''g'', ''h'', ''i'', ''j'', ''k'', ''l'', ''m'', ''n'', ''o'', ''p'', ''q'']"
proof -
  have "splitLines (filterMainContent_markup tagDoc) =
      drop (skipCount (length (filter keepLine (splitLines tagDoc))))
        (filter keepLine (splitLines tagDoc))"
    unfolding filterMainContent_markup_def splitLines_filterMainContent_markup_with
    by (simp add: tagDoc_kept)
  also have "\<dots> = drop 2 (filter keepLine (splitLines tagDoc))"
    using tagDoc_skip_markup by (simp add: skipCount_def)
  also have "\<dots> = map str
     [''c'', ''d'', ''e'', ''f'', ''g'', ''h'', ''i'', ''j'', ''k'', ''l'', ''m'', ''n'', ''o'', ''p'', ''q'']"
    by (simp add: tagDoc_kept)
  finally show ?thesis .
qed

section \<open>The language check and the segmentation\<close>

lemma floor_fifth: "nat \<lfloor>real n * 0.2\<rfloor> = n div 5"
proof -
  have eq: "real n * 0.2 = real n / real 5" by simp
  show ?thesis unfolding eq floor_divide_of_nat_eq by simp
qed

lemma floor_three_tenths: "nat \<lfloor>real n * 0.3\<rfloor> = (3 * n) div 10"
proof -
  have eq: "real n * 0.3 = real (3 * n) / real 10" by simp
  show ?thesis unfolding eq floor_divide_of_nat_eq by simp
qed

lemma ratio_less: "0 < n \<Longrightarrow> (real e / real n < 0.3) = (10 * e < 3 * n)"
  by (simp add: field_simps) linarith

lemma ratio_less6: "0 < n \<Longrightarrow> (real e / real n < 0.6) = (10 * e < 6 * n)"
  by (simp add: field_simps) linarith

lemma ratio_ge: "0 < n \<Longrightarrow> (0.3 \<le> real e / real n) = (3 * n \<le> 10 * e)"
proof -
  assume n: "0 < n"
  have "(0.3 \<le> real e / real n) = (\<not> real e / real n < 0.3)" by (simp only: not_less)
  also have "\<dots> = (\<not> 10 * e < 3 * n)" by (simp only: ratio_less[OF n])
  also have "\<dots> = (3 * n \<le> 10 * e)" by (simp only: not_less)
  finally show ?thesis .
qed

lemma length_replaceRuns_le: "length (replaceRuns p s) \<le> length s"
proof (induction p s rule: replaceRuns.induct)
  case (1 p)
  then show ?case by simp
next
  case (2 p c cs)
  show ?case
  proof (cases "p c")
    case True
    have "length (replaceRuns p (dropWhile p cs)) \<le> length (dropWhile p cs)"
      using 2(1)[OF True] .
    also have "\<dots> \<le> length cs" by (rule length_dropWhile_le)
    finally show ?thesis using True by simp
  next
    case False
    then show ?thesis using 2(2)[OF False] by simp
  qed
qed

lemma length_stripForCheck_le: "length (stripForCheck t) \<le> length t"
proof -
  have "length (stripForCheck t) \<le> length (replaceRuns isSpace
       (map (\<lambda>c. if isWord c \<or> isSpace c then c else 32) (filter (\<lambda>c. \<not> isDigit c) t)))"
    unfolding stripForCheck_def by (rule length_trim_le)
  also have "\<dots> \<le> length (map (\<lambda>c. if isWord c \<or> isSpace c then c else 32)
       (filter (\<lambda>c. \<not> isDigit c) t))"
    by (rule length_replaceRuns_le)
  also have "\<dots> \<le> length t" by simp
  finally show ?thesis .
qed

lemma lenient_iff:
  "isLikelyEnglish_lenient t =
     (length (stripForCheck t) \<le> 100
      \<or> 3 * length (stripForCheck t) \<le> 10 * length (filter isLetter (stripForCheck t)))"
proof (cases "100 < length (stripForCheck t)")
  case True
  then have p: "0 < length (stripForCheck t)" by linarith
  show ?thesis
    unfolding isLikelyEnglish_lenient_def Let_def ratio_less[OF p]
    using True by (simp only: if_True if_False not_less split: if_splits) auto
next
  case False
  then show ?thesis unfolding isLikelyEnglish_lenient_def Let_def by simp
qed

lemma strict_low_ratio:
  assumes "100 < length (cleanedSample t)"
    and "10 * length (filter isLetter (cleanedSample t)) < 6 * length (cleanedSample t)"
  shows "\<not> isLikelyEnglish_strict L t"
proof -
  have p: "0 < length (cleanedSample t)" using assms(1) by linarith
  have r: "real (length (filter isLetter (cleanedSample t))) / real (length (cleanedSample t)) < 0.6"
    using assms(2) by (simp only: ratio_less6[OF p])
  show ?thesis
    using assms(1) r unfolding isLikelyEnglish_strict_def cleanedSample_def Let_def
    by (simp only: if_True not_False_eq_True)
qed

lemma strict_short_sample:
  "length (cleanedSample t) \<le> 100 \<Longrightarrow> isLikelyEnglish_strict L t"
  unfolding isLikelyEnglish_strict_def cleanedSample_def Let_def by simp

lemma digitsAndPunctuation_strip: "stripForCheck digitsAndPunctuation = []"
  unfolding stripForCheck_def digitsAndPunctuation_def
  by (simp add: str_def trim_def char_defs)

lemma thirtyPercent_strip: "stripForCheck thirtyPercent = thirtyPercent"
  unfolding stripForCheck_def thirtyPercent_def
  by (simp add: str_def trim_def char_defs)

lemma thirtyPercent_counts:
  "length thirtyPercent = 110" "length (filter isLetter thirtyPercent) = 33"
  unfolding thirtyPercent_def by (simp_all add: str_def char_defs)

lemma halfLetters_strip: "stripForCheck halfLetters = halfLetters"
  unfolding stripForCheck_def halfLetters_def
  by (simp add: str_def trim_def char_defs)

lemma halfLetters_counts:
  "length halfLetters = 110" "length (filter isLetter halfLetters) = 55"
  unfolding halfLetters_def by (simp_all add: str_def char_defs)

lemma longHalfDoc_sample: "cleanedSample longHalfDoc = halfLetters"
proof -
  have l: "length longHalfDoc = 1100" by (simp add: longHalfDoc_def halfLetters_counts)
  have "slice longHalfDoc 220 330 = halfLetters"
    by (simp add: slice_def longHalfDoc_def halfLetters_counts)
  then show ?thesis
    unfolding cleanedSample_def l floor_fifth floor_three_tenths
    by (simp add: halfLetters_strip)
qed

lemma shortHalfDoc_sample: "cleanedSample shortHalfDoc = str ''a_b_''"
proof -
  have l: "length shortHalfDoc = 40" by (simp add: shortHalfDoc_def str_def)
  have s: "slice shortHalfDoc 8 12 = str ''a_b_''"
    by (simp add: slice_def shortHalfDoc_def str_def)
  have c: "stripForCheck (str ''a_b_'') = str ''a_b_''"
    unfolding stripForCheck_def by (simp add: str_def trim_def char_defs)
  show ?thesis
    unfolding cleanedSample_def l floor_fifth floor_three_tenths
    by (simp add: s c)
qed

lemma shortHalfDoc_ratio:
  "real (length (filter isLetter (cleanedSample shortHalfDoc)))
     / real (length (cleanedSample shortHalfDoc)) = 0.5"
  unfolding shortHalfDoc_sample by (simp add: str_def char_defs)

lemma replaceRuns_fixed: "singleSpaced s \<Longrightarrow> replaceRuns isSpace s = s"
proof (induction s)
  case Nil
  then show ?case by simp
next
  case (Cons c cs)
  have tl: "singleSpaced cs" using Cons.prems by (rule singleSpaced_Cons)
  show ?case
  proof (cases "isSpace c")
    case True
    then have c: "c = 32" using Cons.prems by (simp add: singleSpaced_def)
    have "dropWhile isSpace cs = cs"
    proof (cases cs)
      case Nil
      then show ?thesis by simp
    next
      case (Cons d ds)
      have "d \<noteq> 32" using Cons.prems c Cons \<open>singleSpaced (c # cs)\<close>
        by (simp add: singleSpaced_def not_sublist_Cons)
      moreover have "isSpace d \<longrightarrow> d = 32" using tl Cons by (simp add: singleSpaced_def)
      ultimately show ?thesis using Cons by auto
    qed
    then show ?thesis using True c Cons.IH[OF tl] by simp
  next
    case False
    then show ?thesis using Cons.IH[OF tl] by simp
  qed
qed

lemma cleanText_isNormalized: "isNormalized (cleanText m)"
proof -
  have "replaceRuns isSpace (cleanText m) = cleanText m"
    by (rule replaceRuns_fixed[OF cleanText_singleSpaced])
  moreover have "trim (cleanText m) = cleanText m"
    unfolding cleanText_def by (rule trim_idem)
  ultimately show ?thesis by (simp add: isNormalized_def)
qed

lemma suffix_last_joinWith: "xs \<noteq> [] \<Longrightarrow> suffix (last xs) (joinWith sep xs)"
proof (induction sep xs rule: joinWith.induct)
  case (1 sep)
  then show ?case by simp
next
  case (2 sep x)
  then show ?case by simp
next
  case (3 sep x y ys)
  then have "suffix (last (y # ys)) (joinWith sep (y # ys))" by simp
  then have "suffix (last (y # ys)) (x @ sep # joinWith sep (y # ys))"
    by (metis suffix_Cons suffix_append)
  then show ?case by simp
qed

lemma endOK_False: "endOK False x \<Longrightarrow> x \<noteq> [] \<and> isTerminal (last x)"
  by (auto simp: endOK_def split: if_splits)

lemma startsUpper_D: "startsUpper x \<Longrightarrow> x \<noteq> [] \<and> isUpper (hd x)"
  by (cases x) (auto simp: startsUpper_def)

lemma splitSentences_ends:
  assumes "Suc i < length (splitSentences t)"
  shows "splitSentences t ! i \<noteq> [] \<and> isTerminal (last (splitSentences t ! i))"
proof -
  obtain seg rest where r: "splitFrom False t = seg # rest"
    using splitFrom_nonempty[of False t] by (cases "splitFrom False t") auto
  note sh = splitFrom_shape[OF r]
  have len: "i < length rest" using assms r by (simp add: splitSentences_def)
  show ?thesis
  proof (cases i)
    case 0
    have "rest \<noteq> []" using len by auto
    then have "endOK False seg" using sh by blast
    then show ?thesis using 0 r endOK_False by (simp add: splitSentences_def)
  next
    case (Suc j)
    then have j: "j < length (butlast rest)" using len by simp
    then have "butlast rest ! j \<in> set (butlast rest)" by (rule nth_mem)
    moreover have "butlast rest ! j = rest ! j" using j by (simp add: nth_butlast)
    ultimately have "endOK False (rest ! j)" using sh by auto
    then show ?thesis using Suc r endOK_False by (simp add: splitSentences_def)
  qed
qed

lemma splitSentences_starts:
  assumes "0 < i" and "i < length (splitSentences t)"
  shows "splitSentences t ! i \<noteq> [] \<and> isUpper (hd (splitSentences t ! i))"
proof -
  obtain seg rest where r: "splitFrom False t = seg # rest"
    using splitFrom_nonempty[of False t] by (cases "splitFrom False t") auto
  note sh = splitFrom_shape[OF r]
  obtain j where j: "i = Suc j" using assms(1) by (cases i) auto
  then have "j < length rest" using assms(2) r by (simp add: splitSentences_def)
  then have "rest ! j \<in> set rest" by (rule nth_mem)
  then have "startsUpper (rest ! j)" using sh by blast
  then show ?thesis using j r startsUpper_D by (simp add: splitSentences_def)
qed

lemma fragmentText_normalized: "isNormalized fragmentText"
  unfolding isNormalized_def fragmentText_def
  by (simp add: str_def trim_def char_defs)

lemma fragmentText_split:
  "splitSentences fragmentText = [str ''It rained.'', str ''We stayed in! and then'']"
  unfolding splitSentences_def fragmentText_def
  by (simp add: str_def char_defs startsUpper_def)

section \<open>The claims\<close>

text \<open>
  C5. \<^verbatim>\<open>filterMainContent\<close> drops exactly the first \<open>floor(0.15 * lineCount)\<close> lines, where
  \<open>lineCount\<close> is the length of \<^verbatim>\<open>lines\<close> (in the markup-aware revision: of the lines that
  passed the markup patterns); that number never exceeds the number of lines; the empty text
  gives the empty text. The lines of the result are read back with \<open>splitLines\<close>; when the
  markup-aware revision keeps no line at all its result is the empty text, which reads back as
  one empty line.
\<close>

theorem filterMainContent_prefix:
  "splitLines (filterMainContent t) =
     drop (nat \<lfloor>real (length (splitLines t)) * 0.15\<rfloor>) (splitLines t)
   \<and> nat \<lfloor>real (length (splitLines t)) * 0.15\<rfloor> \<le> length (splitLines t)
   \<and> splitLines (filterMainContent_markup t) =
       (if filter keepLine (splitLines t) = [] then [[]]
        else drop (nat \<lfloor>real (length (filter keepLine (splitLines t))) * 0.15\<rfloor>)
               (filter keepLine (splitLines t)))
   \<and> nat \<lfloor>real (length (filter keepLine (splitLines t))) * 0.15\<rfloor>
       \<le> length (filter keepLine (splitLines t))
   \<and> filterMainContent [] = []
   \<and> filterMainContent_markup [] = []"
proof -
  have a: "splitLines (filterMainContent t) =
     drop (nat \<lfloor>real (length (splitLines t)) * 0.15\<rfloor>) (splitLines t)"
    using splitLines_filterMainContent_with[of skipPatterns t]
    by (simp add: filterMainContent_def skipCount_def)
  have b: "nat \<lfloor>real (length (splitLines t)) * 0.15\<rfloor> \<le> length (splitLines t)"
    using skipCount_le[of "length (splitLines t)"] by (simp add: skipCount_def)
  have c: "splitLines (filterMainContent_markup t) =
       (if filter keepLine (splitLines t) = [] then [[]]
        else drop (nat \<lfloor>real (length (filter keepLine (splitLines t))) * 0.15\<rfloor>)
               (filter keepLine (splitLines t)))"
    using splitLines_filterMainContent_markup_with[of skipPatterns t]
    by (simp add: filterMainContent_markup_def skipCount_def)
  have d: "nat \<lfloor>real (length (filter keepLine (splitLines t))) * 0.15\<rfloor>
       \<le> length (filter keepLine (splitLines t))"
    using skipCount_le[of "length (filter keepLine (splitLines t))"]
    by (simp add: skipCount_def)
  have e: "filterMainContent [] = []"
    by (simp add: filterMainContent_def filterMainContent_with_def contentLines_with_eq
        splitLines_def skipCount_eq)
  have f: "filterMainContent_markup [] = []"
    by (simp add: filterMainContent_markup_def filterMainContent_markup_with_def
        contentLines_markup_with_eq splitLines_def skipCount_eq keepLine_empty)
  show ?thesis
    by (rule conjI[OF a conjI[OF b conjI[OF c conjI[OF d conjI[OF e f]]]]])
qed

text \<open>
  C6, as amended. The lines that \<^verbatim>\<open>filterMainContent\<close> keeps (\<^verbatim>\<open>contentLines\<close>) are a
  subsequence of the lines of the raw text: their order is kept and every one of them is a line
  of the raw text, used once. In the OCR-cleaning and early revisions they are the raw lines
  without the first \<open>floor(0.15 * n)\<close> of them, \<open>n\<close> the number of raw lines. In the
  markup-aware revision they are the lines that pass \<open>keepLine\<close> without the first
  \<open>floor(0.15 * m)\<close> of those, \<open>m\<close> the number of lines that pass: the source filters
  first and counts afterwards, so the prefix is not 15% of the raw lines. The returned text is
  those lines joined by newlines, and reading it back gives the same lines unless no line is
  left. In the counterexample a text of twenty lines starts with three tags: the raw 15% prefix
  is the three tags, yet the result also lacks the lines a and b.
\<close>

theorem filterMainContent_subsequence:
  "splitLines (filterMainContent t) =
     drop (nat \<lfloor>real (length (splitLines t)) * 0.15\<rfloor>) (splitLines t)
   \<and> subseq (splitLines (filterMainContent t)) (splitLines t)
   \<and> contentLines_markup_with skipPatterns t =
       drop (nat \<lfloor>real (length (filter keepLine (splitLines t))) * 0.15\<rfloor>)
         (filter keepLine (splitLines t))
   \<and> subseq (contentLines_markup_with skipPatterns t) (splitLines t)
   \<and> filterMainContent_markup t = joinWith 10 (contentLines_markup_with skipPatterns t)
   \<and> (contentLines_markup_with skipPatterns t \<noteq> [] \<longrightarrow>
         splitLines (filterMainContent_markup t) = contentLines_markup_with skipPatterns t)"
proof -
  have a0: "splitLines (filterMainContent t) =
     drop (nat \<lfloor>real (length (splitLines t)) * 0.15\<rfloor>) (splitLines t)"
    using splitLines_filterMainContent_with[of skipPatterns t]
    by (simp add: filterMainContent_def skipCount_def)
  have a: "subseq (splitLines (filterMainContent t)) (splitLines t)"
    unfolding filterMainContent_def splitLines_filterMainContent_with
    by (rule sublist_imp_subseq[OF sublist_drop])
  have b0: "contentLines_markup_with skipPatterns t =
       drop (nat \<lfloor>real (length (filter keepLine (splitLines t))) * 0.15\<rfloor>)
         (filter keepLine (splitLines t))"
    by (simp add: contentLines_markup_with_eq skipCount_def)
  have "subseq (drop (skipCount (length (filter keepLine (splitLines t))))
          (filter keepLine (splitLines t))) (filter keepLine (splitLines t))"
    by (rule sublist_imp_subseq[OF sublist_drop])
  then have b: "subseq (contentLines_markup_with skipPatterns t) (splitLines t)"
    unfolding contentLines_markup_with_eq
    using subseq_filter_left subseq_order.order_trans by blast
  have c: "filterMainContent_markup t = joinWith 10 (contentLines_markup_with skipPatterns t)"
    by (simp add: filterMainContent_markup_def filterMainContent_markup_with_def)
  have d: "contentLines_markup_with skipPatterns t \<noteq> [] \<longrightarrow>
         splitLines (filterMainContent_markup t) = contentLines_markup_with skipPatterns t"
  proof
    assume ne: "contentLines_markup_with skipPatterns t \<noteq> []"
    then have "filter keepLine (splitLines t) \<noteq> []"
      unfolding contentLines_markup_with_eq by auto
    then show "splitLines (filterMainContent_markup t) = contentLines_markup_with skipPatterns t"
      unfolding filterMainContent_markup_def contentLines_markup_with_eq
      by (simp add: splitLines_filterMainContent_markup_with)
  qed
  show ?thesis
    by (rule conjI[OF a0 conjI[OF a conjI[OF b0 conjI[OF b conjI[OF c d]]]]])
qed

theorem filterMainContent_subsequence_witness:
  "splitLines (filterMainContent tagDoc) = map str
     [''a'', ''b'', ''c'', ''d'', ''e'', ''f'', ''g'', ''h'', ''i'', ''j'', ''k'', ''l'', ''m'', ''n'', ''o'', ''p'', ''q'']
   \<and> splitLines (filterMainContent_markup tagDoc) = map str
     [''c'', ''d'', ''e'', ''f'', ''g'', ''h'', ''i'', ''j'', ''k'', ''l'', ''m'', ''n'', ''o'', ''p'', ''q'']
   \<and> subseq (splitLines (filterMainContent_markup tagDoc)) (splitLines tagDoc)
   \<and> subseq (splitLines (filterMainContent tagDoc)) (splitLines tagDoc)"
proof -
  note th = filterMainContent_subsequence[of tagDoc]
  have "splitLines (filterMainContent tagDoc) =
     drop (nat \<lfloor>real (length (splitLines tagDoc)) * 0.15\<rfloor>) (splitLines tagDoc)"
    using th by blast
  then have o: "splitLines (filterMainContent tagDoc) = map str
     [''a'', ''b'', ''c'', ''d'', ''e'', ''f'', ''g'', ''h'', ''i'', ''j'', ''k'', ''l'', ''m'', ''n'', ''o'', ''p'', ''q'']"
    unfolding tagDoc_skip by (simp add: tagDoc_lines)
  have "contentLines_markup_with skipPatterns tagDoc =
       drop (nat \<lfloor>real (length (filter keepLine (splitLines tagDoc))) * 0.15\<rfloor>)
         (filter keepLine (splitLines tagDoc))"
    using th by blast
  then have cl: "contentLines_markup_with skipPatterns tagDoc = map str
     [''c'', ''d'', ''e'', ''f'', ''g'', ''h'', ''i'', ''j'', ''k'', ''l'', ''m'', ''n'', ''o'', ''p'', ''q'']"
    unfolding tagDoc_skip_markup by (simp add: tagDoc_kept)
  then have ne: "contentLines_markup_with skipPatterns tagDoc \<noteq> []" by simp
  have eq: "splitLines (filterMainContent_markup tagDoc) =
      contentLines_markup_with skipPatterns tagDoc"
    using th ne by blast
  have s1: "subseq (contentLines_markup_with skipPatterns tagDoc) (splitLines tagDoc)"
    using th by blast
  have s2: "subseq (splitLines (filterMainContent tagDoc)) (splitLines tagDoc)"
    using th by blast
  show ?thesis using o eq cl s1 s2 by simp
qed

theorem filterMainContent_raw_prefix_counterexample:
  "\<not> (\<forall>t. splitLines (filterMainContent_markup t) =
          filter keepLine
            (drop (nat \<lfloor>real (length (splitLines t)) * 0.15\<rfloor>) (splitLines t)))"
proof
  assume "\<forall>t. splitLines (filterMainContent_markup t) =
          filter keepLine
            (drop (nat \<lfloor>real (length (splitLines t)) * 0.15\<rfloor>) (splitLines t))"
  then have "splitLines (filterMainContent_markup tagDoc) =
          filter keepLine
            (drop (nat \<lfloor>real (length (splitLines tagDoc)) * 0.15\<rfloor>) (splitLines tagDoc))"
    by blast
  then have "splitLines (filterMainContent_markup tagDoc) = map str
     [''a'', ''b'', ''c'', ''d'', ''e'', ''f'', ''g'', ''h'', ''i'', ''j'', ''k'', ''l'', ''m'', ''n'', ''o'', ''p'', ''q'']"
    unfolding tagDoc_skip by (simp add: tagDoc_lines keepLine_letters)
  then show False by (simp add: tagDoc_markup_lines str_def)
qed

text \<open>
  C9. The result of \<^verbatim>\<open>filterMainContent\<close> does not depend on \<^verbatim>\<open>skipPatterns\<close>: any two lists
  of patterns give the same text. Every line behind the skipped prefix is in the result,
  whatever it says; in the markup-aware revision every line that passes \<open>keepLine\<close> and
  stands behind the prefix is, and the boilerplate lines "Project Gutenberg" and "Copyright"
  pass \<open>keepLine\<close>. In the example after the theorem the line "Project Gutenberg" matches a
  pattern of \<^verbatim>\<open>skipPatterns\<close>, is in the result of both revisions, and is missing from the
  sentences only because the sentence it became part of holds a keyword of the deny-list.
\<close>

theorem filterMainContent_ignores_skipPatterns:
  "filterMainContent_with ps t = filterMainContent_with ps' t
   \<and> filterMainContent_markup_with ps t = filterMainContent_markup_with ps' t
   \<and> (\<forall>i. skipCount (length (splitLines t)) \<le> i \<and> i < length (splitLines t) \<longrightarrow>
          splitLines t ! i \<in> set (splitLines (filterMainContent t)))
   \<and> (\<forall>l \<in> set (drop (skipCount (length (filter keepLine (splitLines t))))
                     (filter keepLine (splitLines t))).
          l \<in> set (splitLines (filterMainContent_markup t)))
   \<and> keepLine (str ''Project Gutenberg'') \<and> keepLine (str ''Copyright'')"
proof -
  have a: "filterMainContent_with ps t = filterMainContent_with ps' t"
    by (simp add: filterMainContent_with_def contentLines_with_eq)
  have b: "filterMainContent_markup_with ps t = filterMainContent_markup_with ps' t"
    by (simp add: filterMainContent_markup_with_def contentLines_markup_with_eq)
  have c: "\<forall>i. skipCount (length (splitLines t)) \<le> i \<and> i < length (splitLines t) \<longrightarrow>
          splitLines t ! i \<in> set (splitLines (filterMainContent t))"
  proof (intro allI impI)
    fix i
    assume i: "skipCount (length (splitLines t)) \<le> i \<and> i < length (splitLines t)"
    let ?k = "skipCount (length (splitLines t))"
    have "splitLines t ! i = drop ?k (splitLines t) ! (i - ?k)" using i by simp
    moreover have "i - ?k < length (drop ?k (splitLines t))" using i by auto
    ultimately have "splitLines t ! i \<in> set (drop ?k (splitLines t))"
      by (metis nth_mem)
    then show "splitLines t ! i \<in> set (splitLines (filterMainContent t))"
      by (simp add: filterMainContent_def splitLines_filterMainContent_with)
  qed
  have d: "\<forall>l \<in> set (drop (skipCount (length (filter keepLine (splitLines t))))
                     (filter keepLine (splitLines t))).
          l \<in> set (splitLines (filterMainContent_markup t))"
  proof
    fix l
    assume l: "l \<in> set (drop (skipCount (length (filter keepLine (splitLines t))))
                     (filter keepLine (splitLines t)))"
    then have "filter keepLine (splitLines t) \<noteq> []" by auto
    then show "l \<in> set (splitLines (filterMainContent_markup t))"
      using l by (simp add: filterMainContent_markup_def splitLines_filterMainContent_markup_with)
  qed
  show ?thesis
    by (rule conjI[OF a conjI[OF b conjI[OF c conjI[OF d
          conjI[OF keepLine_gutenberg keepLine_copyright]]]]])
qed

theorem filterMainContent_ignores_skipPatterns_witness:
  "str ''Project Gutenberg'' \<in> set (splitLines (filterMainContent frontMatterDoc))
   \<and> str ''Project Gutenberg'' \<in> set (splitLines (filterMainContent_markup frontMatterDoc))
   \<and> list_ex (\<lambda>p. rxTest p (str ''Project Gutenberg'')) skipPatterns
   \<and> extractSentences_ocr (\<lambda>s. s) frontMatterDoc =
       [str ''The clocks were striking thirteen. color red He went home.'']"
proof -
  note th = filterMainContent_ignores_skipPatterns[of skipPatterns frontMatterDoc skipPatterns]
  have "skipCount (length (splitLines frontMatterDoc)) \<le> 1 \<and> 1 < length (splitLines frontMatterDoc)"
    by (simp add: frontMatterDoc_skip) (simp add: frontMatterDoc_lines)
  then have "splitLines frontMatterDoc ! 1 \<in> set (splitLines (filterMainContent frontMatterDoc))"
    using th by blast
  then have a: "str ''Project Gutenberg'' \<in> set (splitLines (filterMainContent frontMatterDoc))"
    by (simp add: frontMatterDoc_lines)
  have "str ''Project Gutenberg'' \<in> set (drop (skipCount (length (filter keepLine (splitLines frontMatterDoc))))
                     (filter keepLine (splitLines frontMatterDoc)))"
    unfolding frontMatterDoc_skip_markup by (simp add: frontMatterDoc_kept)
  then have b: "str ''Project Gutenberg'' \<in> set (splitLines (filterMainContent_markup frontMatterDoc))"
    using th by blast
  show ?thesis
    using a b gutenberg_matches_skipPatterns frontMatterDoc_ocr[of "\<lambda>s. s"] by blast
qed

text \<open>
  C1, as amended. In the OCR-cleaning and the markup-aware revision every returned sentence
  has a trimmed length between 15 and 600 and more than 0.3 of its characters are ASCII letters.
  In the early revision every returned sentence has a trimmed length between 20 and 500;
  that revision has no letter-ratio check, and the counterexample below is a sentence it
  returns with a ratio of 3/36.
\<close>

theorem sentence_length_and_ratio:
  "(\<forall>s \<in> set (extractSentences_ocr L t) \<union> set (extractSentences_markup L t).
      15 \<le> length (trim s) \<and> length (trim s) \<le> 600
      \<and> real (letterCount s) / real (length s) > 0.3)
   \<and> (\<forall>s \<in> set (extractSentences_early L t).
      20 \<le> length (trim s) \<and> length (trim s) \<le> 500)"
proof -
  have a: "\<forall>s \<in> set (extractSentences_ocr L t) \<union> set (extractSentences_markup L t).
      15 \<le> length (trim s) \<and> length (trim s) \<le> 600
      \<and> real (letterCount s) / real (length s) > 0.3"
  proof
    fix s
    assume "s \<in> set (extractSentences_ocr L t) \<union> set (extractSentences_markup L t)"
    then have "(\<exists>seg. s = trim seg) \<and> 15 \<le> length s \<and> length s \<le> 600 \<and> letterRatioOk s"
      using extract_ocr_D[of s L t] extract_markup_D[of s L t] accept_ocr_D[of L s]
        accept_markup_D[of L s] by blast
    then show "15 \<le> length (trim s) \<and> length (trim s) \<le> 600
        \<and> real (letterCount s) / real (length s) > 0.3"
      using trim_idem by (auto simp: letterRatioOk_real)
  qed
  have b: "\<forall>s \<in> set (extractSentences_early L t).
      20 \<le> length (trim s) \<and> length (trim s) \<le> 500"
  proof
    fix s
    assume "s \<in> set (extractSentences_early L t)"
    then have "(\<exists>seg. s = trim seg) \<and> 20 \<le> length s \<and> length s \<le> 500"
      using extract_early_D[of s L t] accept_early_D[of L s] by blast
    then show "20 \<le> length (trim s) \<and> length (trim s) \<le> 500"
      using trim_idem by auto
  qed
  show ?thesis by (rule conjI[OF a b])
qed

theorem sentence_length_and_ratio_witness:
  "sentence1 \<in> set (extractSentences_ocr (\<lambda>s. s) narrative)
   \<and> 15 \<le> length (trim sentence1) \<and> length (trim sentence1) \<le> 600
   \<and> real (letterCount sentence1) / real (length sentence1) > 0.3
   \<and> sentence2 \<in> set (extractSentences_early (\<lambda>s. s) narrative)
   \<and> 20 \<le> length (trim sentence2) \<and> length (trim sentence2) \<le> 500"
proof -
  have a: "sentence1 \<in> set (extractSentences_ocr (\<lambda>s. s) narrative)
       \<union> set (extractSentences_markup (\<lambda>s. s) narrative)"
    by (simp add: narrative_ocr)
  have b: "sentence2 \<in> set (extractSentences_early (\<lambda>s. s) narrative)"
    by (simp add: narrative_early)
  show ?thesis
    using sentence_length_and_ratio[of "\<lambda>s. s" narrative] a b by (simp add: narrative_ocr)
qed

theorem early_letter_ratio_counterexample:
  "\<not> (\<forall>L t. \<forall>s \<in> set (extractSentences_early L t).
        20 \<le> length (trim s) \<and> length (trim s) \<le> 500
        \<and> real (letterCount s) / real (length s) > 0.3)"
proof
  assume "\<forall>L t. \<forall>s \<in> set (extractSentences_early L t).
        20 \<le> length (trim s) \<and> length (trim s) \<le> 500
        \<and> real (letterCount s) / real (length s) > 0.3"
  then have "\<forall>s \<in> set (extractSentences_early (\<lambda>s. s) digitHeavy).
        real (letterCount s) / real (length s) > 0.3" by blast
  then have "real (letterCount digitHeavy) / real (length digitHeavy) > 0.3"
    by (simp add: digitHeavy_early)
  then show False using digitHeavy_ratio by simp
qed

text \<open>
  C2. In the OCR-cleaning and the markup-aware revision no returned sentence contains a keyword
  of that revision's deny-list, whatever the case of the letters: no contiguous part \<open>v\<close> of
  the sentence equals a keyword once both are put in lower case. This holds for every
  \<open>L\<close>, since a returned sentence has ASCII characters only.
\<close>

theorem no_denied_keyword:
  "(\<forall>s \<in> set (extractSentences_ocr L t). \<forall>k \<in> set excludeKeywords_ocr.
      \<forall>v. sublist v s \<longrightarrow> map asciiLower v \<noteq> map asciiLower k)
   \<and> (\<forall>s \<in> set (extractSentences_markup L t). \<forall>k \<in> set excludeKeywords_markup.
      \<forall>v. sublist v s \<longrightarrow> map asciiLower v \<noteq> map asciiLower k)"
proof (intro conjI ballI allI impI)
  fix s k v
  assume s: "s \<in> set (extractSentences_ocr L t)" and k: "k \<in> set excludeKeywords_ocr"
    and v: "sublist v s"
  obtain seg where seg: "seg \<in> set (splitSentences (cleanText (filterMainContent t)))"
    and st: "s = trim seg" using extract_ocr_D[OF s] by blast
  have acc: "15 \<le> length s \<and> \<not> hasExcludedKeyword L excludeKeywords_ocr (toLowerCase L s)"
    using extract_ocr_D[OF s] accept_ocr_D[of L s] by blast
  have "\<forall>c \<in> set s. c < 128"
    using cleaned_sentence[OF seg] acc st allowed_not_symbol by blast
  then have "isAscii s" by (simp add: isAscii_def list_all_iff)
  then show "map asciiLower v \<noteq> map asciiLower k"
    using no_keyword[OF _ _ keywords_ascii(1) k v] acc by blast
next
  fix s k v
  assume s: "s \<in> set (extractSentences_markup L t)" and k: "k \<in> set excludeKeywords_markup"
    and v: "sublist v s"
  obtain seg where seg: "seg \<in> set (splitSentences (cleanText (filterMainContent_markup t)))"
    and st: "s = trim seg" using extract_markup_D[OF s] by blast
  have acc: "15 \<le> length s \<and> \<not> hasExcludedKeyword L excludeKeywords_markup (toLowerCase L s)"
    using extract_markup_D[OF s] accept_markup_D[of L s] by blast
  have "\<forall>c \<in> set s. c < 128"
    using cleaned_sentence[OF seg] acc st allowed_not_symbol by blast
  then have "isAscii s" by (simp add: isAscii_def list_all_iff)
  then show "map asciiLower v \<noteq> map asciiLower k"
    using no_keyword[OF _ _ keywords_ascii(2) k v] acc by blast
qed

theorem no_denied_keyword_witness:
  "sentence1 \<in> set (extractSentences_markup (\<lambda>s. s) narrative)
   \<and> str ''style'' \<in> set excludeKeywords_markup
   \<and> sublist (str ''suffi'') sentence1
   \<and> map asciiLower (str ''suffi'') \<noteq> map asciiLower (str ''style'')
   \<and> sentence2 \<in> set (extractSentences_ocr (\<lambda>s. s) narrative)
   \<and> str ''page'' \<in> set excludeKeywords_ocr
   \<and> sublist (str ''here'') sentence2
   \<and> map asciiLower (str ''here'') \<noteq> map asciiLower (str ''page'')"
proof -
  have a: "sentence1 \<in> set (extractSentences_markup (\<lambda>s. s) narrative)"
    by (simp add: narrative_markup)
  have b: "str ''style'' \<in> set excludeKeywords_markup"
    by (simp add: excludeKeywords_markup_def)
  have c: "sublist (str ''suffi'') sentence1"
    unfolding includes_js_iff[symmetric] sentence1_def by (simp add: str_def)
  have d: "sentence2 \<in> set (extractSentences_ocr (\<lambda>s. s) narrative)"
    by (simp add: narrative_ocr)
  have e: "str ''page'' \<in> set excludeKeywords_ocr"
    by (simp add: excludeKeywords_ocr_def)
  have f: "sublist (str ''here'') sentence2"
    unfolding includes_js_iff[symmetric] sentence2_def by (simp add: str_def)
  note th = no_denied_keyword[of "\<lambda>s. s" narrative]
  have g: "map asciiLower (str ''suffi'') \<noteq> map asciiLower (str ''style'')"
    using th a b c by blast
  have h: "map asciiLower (str ''here'') \<noteq> map asciiLower (str ''page'')"
    using th d e f by blast
  show ?thesis using a b c d e f g h by blast
qed

text \<open>
  C10. In the two revisions that clean the text, every returned sentence consists of word
  characters, spaces and \<^verbatim>\<open>. ! ?\<close> only (so no comma, apostrophe or quote), is not empty, has
  no whitespace at either end, and has no two spaces next to each other.
\<close>

theorem cleaned_sentences_charset:
  "\<forall>s \<in> set (extractSentences_ocr L t) \<union> set (extractSentences_markup L t).
     (\<forall>c \<in> set s. isWord c \<or> c = 32 \<or> isTerminal c)
     \<and> 44 \<notin> set s \<and> 39 \<notin> set s \<and> 34 \<notin> set s
     \<and> s \<noteq> [] \<and> \<not> isSpace (hd s) \<and> \<not> isSpace (last s) \<and> trim s = s
     \<and> (\<forall>i. Suc i < length s \<longrightarrow> \<not> (s ! i = 32 \<and> s ! Suc i = 32))"
proof
  fix s
  assume "s \<in> set (extractSentences_ocr L t) \<union> set (extractSentences_markup L t)"
  then obtain m seg where seg: "seg \<in> set (splitSentences (cleanText m))" and s: "s = trim seg"
    and len: "15 \<le> length s"
    using extract_ocr_D[of s L t] extract_markup_D[of s L t] accept_ocr_D[of L s]
      accept_markup_D[of L s] by blast
  have p: "(\<forall>c \<in> set s. isWord c \<or> c = 32 \<or> isTerminal c)
     \<and> s \<noteq> [] \<and> \<not> isSpace (hd s) \<and> \<not> isSpace (last s) \<and> \<not> sublist [32, 32] s"
    using cleaned_sentence[OF seg] len s by simp
  then have "\<forall>c \<in> set s. c \<noteq> 44 \<and> c \<noteq> 39 \<and> c \<noteq> 34"
    using allowed_not_symbol by blast
  then have q: "44 \<notin> set s \<and> 39 \<notin> set s \<and> 34 \<notin> set s" by blast
  have r: "trim s = s" unfolding s by (rule trim_idem)
  have "\<forall>i. Suc i < length s \<longrightarrow> \<not> (s ! i = 32 \<and> s ! Suc i = 32)"
    using p noDouble_index by blast
  then show "(\<forall>c \<in> set s. isWord c \<or> c = 32 \<or> isTerminal c)
     \<and> 44 \<notin> set s \<and> 39 \<notin> set s \<and> 34 \<notin> set s
     \<and> s \<noteq> [] \<and> \<not> isSpace (hd s) \<and> \<not> isSpace (last s) \<and> trim s = s
     \<and> (\<forall>i. Suc i < length s \<longrightarrow> \<not> (s ! i = 32 \<and> s ! Suc i = 32))"
    using p q r by blast
qed

theorem cleaned_sentences_charset_witness:
  "sentence1 \<in> set (extractSentences_ocr (\<lambda>s. s) narrative)
   \<and> list_all (\<lambda>c. isWord c \<or> c = 32 \<or> isTerminal c) sentence1
   \<and> 44 \<notin> set sentence1 \<and> \<not> isSpace (hd sentence1) \<and> \<not> isSpace (last sentence1)
   \<and> trim sentence1 = sentence1
   \<and> \<not> (sentence1 ! 4 = 32 \<and> sentence1 ! 5 = 32)"
proof -
  have a: "sentence1 \<in> set (extractSentences_ocr (\<lambda>s. s) narrative)
       \<union> set (extractSentences_markup (\<lambda>s. s) narrative)"
    by (simp add: narrative_ocr)
  have l: "Suc 4 < length sentence1" by (simp add: sentence1_def str_def)
  note th = cleaned_sentences_charset[of "\<lambda>s. s" narrative]
  have p: "(\<forall>c \<in> set sentence1. isWord c \<or> c = 32 \<or> isTerminal c)
     \<and> 44 \<notin> set sentence1 \<and> \<not> isSpace (hd sentence1) \<and> \<not> isSpace (last sentence1)
     \<and> trim sentence1 = sentence1
     \<and> (\<forall>i. Suc i < length sentence1 \<longrightarrow> \<not> (sentence1 ! i = 32 \<and> sentence1 ! Suc i = 32))"
    using th a by blast
  then have "\<not> (sentence1 ! 4 = 32 \<and> sentence1 ! Suc 4 = 32)" using l by blast
  then have q: "\<not> (sentence1 ! 4 = 32 \<and> sentence1 ! 5 = 32)" by simp
  show ?thesis using p q by (simp add: narrative_ocr list_all_iff)
qed

text \<open>
  C8. On the two-sentence example every revision returns exactly the two sentences, whole (the
  input is the first, a space, the second), each ending in a full stop and starting with an
  upper-case letter; on the empty string every revision returns the empty list.
\<close>

theorem extract_narrative_example:
  "extractSentences_ocr L narrative = [sentence1, sentence2]
   \<and> extractSentences_markup L narrative = [sentence1, sentence2]
   \<and> extractSentences_early L narrative = [sentence1, sentence2]
   \<and> narrative = sentence1 @ 32 # sentence2
   \<and> last sentence1 = 46 \<and> last sentence2 = 46
   \<and> isUpper (hd sentence1) \<and> isUpper (hd sentence2)
   \<and> extractSentences_ocr L [] = []
   \<and> extractSentences_markup L [] = []
   \<and> extractSentences_early L [] = []"
proof -
  have a: "narrative = sentence1 @ 32 # sentence2"
    by (simp add: narrative_def sentence1_def sentence2_def str_def)
  have b: "last sentence1 = 46 \<and> last sentence2 = 46 \<and> isUpper (hd sentence1) \<and> isUpper (hd sentence2)"
    by (simp add: sentence1_def sentence2_def str_def isUpper_def)
  show ?thesis
    using a b narrative_ocr[of L] narrative_markup[of L] narrative_early[of L]
      empty_ocr[of L] empty_markup[of L] empty_early[of L]
    by simp
qed

text \<open>
  C7. For a normalized text (collapsing whitespace runs and trimming leaves it unchanged, as
  is the case for \<^verbatim>\<open>cleanedText\<close>, lemma \<open>cleanText_isNormalized\<close>) the split gives at least
  one segment; every segment but the last is non-empty and ends in one of \<^verbatim>\<open>. ! ?\<close>; every
  segment but the first starts with an upper-case letter; joining the segments with single
  spaces gives the text back; and the last segment is the end of the text, terminated or not.
\<close>

theorem splitSentences_normalized:
  assumes "isNormalized t"
  shows "splitSentences t \<noteq> []
    \<and> (\<forall>i. Suc i < length (splitSentences t) \<longrightarrow>
          splitSentences t ! i \<noteq> [] \<and> isTerminal (last (splitSentences t ! i)))
    \<and> (\<forall>i. 0 < i \<and> i < length (splitSentences t) \<longrightarrow>
          splitSentences t ! i \<noteq> [] \<and> isUpper (hd (splitSentences t ! i)))
    \<and> joinWith 32 (splitSentences t) = t
    \<and> suffix (last (splitSentences t)) t"
proof -
  have ne: "splitSentences t \<noteq> []" by (simp add: splitSentences_def splitFrom_nonempty)
  have j: "joinWith 32 (splitSentences t) = t"
    unfolding splitSentences_def
    by (rule splitFrom_rejoin[OF isNormalized_singleSpaced[OF assms]])
  have s: "suffix (last (splitSentences t)) t"
    using suffix_last_joinWith[OF ne, of 32] j by simp
  show ?thesis using ne j s splitSentences_ends splitSentences_starts by blast
qed

theorem splitSentences_normalized_witness:
  "isNormalized fragmentText
   \<and> splitSentences fragmentText = [str ''It rained.'', str ''We stayed in! and then'']
   \<and> isTerminal (last (str ''It rained.''))
   \<and> isUpper (hd (str ''We stayed in! and then''))
   \<and> joinWith 32 [str ''It rained.'', str ''We stayed in! and then''] = fragmentText
   \<and> suffix (str ''We stayed in! and then'') fragmentText"
proof -
  note th = splitSentences_normalized[OF fragmentText_normalized]
  have l0: "Suc 0 < length (splitSentences fragmentText)" by (simp add: fragmentText_split)
  have l1: "0 < (1::nat) \<and> 1 < length (splitSentences fragmentText)"
    by (simp add: fragmentText_split)
  have "isTerminal (last (splitSentences fragmentText ! 0))" using th l0 by blast
  then have a: "isTerminal (last (str ''It rained.''))" by (simp add: fragmentText_split)
  have "isUpper (hd (splitSentences fragmentText ! 1))" using th l1 by blast
  then have b: "isUpper (hd (str ''We stayed in! and then''))" by (simp add: fragmentText_split)
  have c: "joinWith 32 (splitSentences fragmentText) = fragmentText" using th by blast
  have d: "suffix (last (splitSentences fragmentText)) fragmentText" using th by blast
  show ?thesis
    using a b c d fragmentText_normalized by (simp add: fragmentText_split)
qed

text \<open>
  C4, as amended. The whole-text language check accepts a book exactly when the cleaned text has
  at most 100 characters or at least 0.3 of its characters are ASCII letters (the source skips
  the book only when the ratio is below 0.3, so a ratio of exactly 0.3 is accepted). A text
  of at most 100 characters is always accepted. The counterexample below is a cleaned text of
  110 characters with 33 letters.
\<close>

theorem lenient_check_accepts:
  "isLikelyEnglish_lenient t =
     (length (stripForCheck t) \<le> 100
      \<or> real (length (filter isLetter (stripForCheck t))) / real (length (stripForCheck t)) \<ge> 0.3)
   \<and> (length t \<le> 100 \<longrightarrow> isLikelyEnglish_lenient t)"
proof -
  have a: "isLikelyEnglish_lenient t =
     (length (stripForCheck t) \<le> 100
      \<or> real (length (filter isLetter (stripForCheck t))) / real (length (stripForCheck t)) \<ge> 0.3)"
  proof (cases "100 < length (stripForCheck t)")
    case True
    then have p: "0 < length (stripForCheck t)" by linarith
    show ?thesis unfolding lenient_iff ratio_ge[OF p] by (rule refl)
  next
    case False
    then show ?thesis unfolding lenient_iff by simp
  qed
  have b: "length t \<le> 100 \<longrightarrow> isLikelyEnglish_lenient t"
    using length_stripForCheck_le[of t] unfolding lenient_iff by linarith
  show ?thesis by (rule conjI[OF a b])
qed

theorem lenient_check_accepts_witness:
  "length digitsAndPunctuation = 50 \<and> stripForCheck digitsAndPunctuation = []
   \<and> isLikelyEnglish_lenient digitsAndPunctuation"
proof -
  have l: "length digitsAndPunctuation = 50" by (simp add: digitsAndPunctuation_def str_def)
  then have "length digitsAndPunctuation \<le> 100" by simp
  then have "isLikelyEnglish_lenient digitsAndPunctuation"
    using lenient_check_accepts[of digitsAndPunctuation] by blast
  then show ?thesis using l digitsAndPunctuation_strip by simp
qed

theorem lenient_check_counterexample:
  "\<not> (\<forall>t. isLikelyEnglish_lenient t =
     (length (stripForCheck t) \<le> 100
      \<or> real (length (filter isLetter (stripForCheck t))) / real (length (stripForCheck t)) > 0.3))"
proof
  assume "\<forall>t. isLikelyEnglish_lenient t =
     (length (stripForCheck t) \<le> 100
      \<or> real (length (filter isLetter (stripForCheck t))) / real (length (stripForCheck t)) > 0.3)"
  then have "isLikelyEnglish_lenient thirtyPercent =
     (length (stripForCheck thirtyPercent) \<le> 100
      \<or> real (length (filter isLetter (stripForCheck thirtyPercent)))
          / real (length (stripForCheck thirtyPercent)) > 0.3)" by blast
  moreover have "isLikelyEnglish_lenient thirtyPercent"
    unfolding lenient_iff thirtyPercent_strip thirtyPercent_counts by simp
  ultimately show False
    unfolding thirtyPercent_strip thirtyPercent_counts by simp
qed

text \<open>
  C3, as amended. In the sampled language check, a book whose cleaned 20%-30% window has more
  than 100 characters and a letter ratio below 0.6 (0.5, say) is skipped, whatever words the
  window holds and whatever \<open>L\<close> is. The source checks nothing when the cleaned window has
  100 characters or fewer: the counterexample below is a book of 40 characters whose window
  \<^verbatim>\<open>a_b_\<close> has ratio 0.5 and is accepted.
\<close>

theorem strict_check_rejects_low_ratio:
  "100 < length (cleanedSample t)
   \<and> real (length (filter isLetter (cleanedSample t))) / real (length (cleanedSample t)) < 0.6
   \<longrightarrow> \<not> isLikelyEnglish_strict L t"
proof
  assume a: "100 < length (cleanedSample t)
   \<and> real (length (filter isLetter (cleanedSample t))) / real (length (cleanedSample t)) < 0.6"
  then have p: "0 < length (cleanedSample t)" by linarith
  have "10 * length (filter isLetter (cleanedSample t)) < 6 * length (cleanedSample t)"
    using a by (simp only: ratio_less6[OF p])
  then show "\<not> isLikelyEnglish_strict L t" using a strict_low_ratio by blast
qed

theorem strict_check_rejects_low_ratio_witness:
  "length (cleanedSample longHalfDoc) = 110
   \<and> real (length (filter isLetter (cleanedSample longHalfDoc)))
        / real (length (cleanedSample longHalfDoc)) = 0.5
   \<and> \<not> isLikelyEnglish_strict (\<lambda>s. s) longHalfDoc"
proof -
  have a: "length (cleanedSample longHalfDoc) = 110"
    by (simp add: longHalfDoc_sample halfLetters_counts)
  have b: "real (length (filter isLetter (cleanedSample longHalfDoc)))
        / real (length (cleanedSample longHalfDoc)) = 0.5"
    by (simp add: longHalfDoc_sample halfLetters_counts)
  have "\<not> isLikelyEnglish_strict (\<lambda>s. s) longHalfDoc"
    using strict_check_rejects_low_ratio[of longHalfDoc "\<lambda>s. s"] a b by simp
  then show ?thesis using a b by blast
qed

theorem strict_check_counterexample:
  "\<not> (\<forall>L t. real (length (filter isLetter (cleanedSample t))) / real (length (cleanedSample t)) = 0.5
        \<longrightarrow> \<not> isLikelyEnglish_strict L t)"
proof
  assume "\<forall>L t. real (length (filter isLetter (cleanedSample t))) / real (length (cleanedSample t)) = 0.5
        \<longrightarrow> \<not> isLikelyEnglish_strict L t"
  then have "\<not> isLikelyEnglish_strict (\<lambda>s. s) shortHalfDoc"
    using shortHalfDoc_ratio by blast
  moreover have "isLikelyEnglish_strict (\<lambda>s. s) shortHalfDoc"
    by (rule strict_short_sample) (simp add: shortHalfDoc_sample str_def)
  ultimately show False by simp
qed

end
